theory Spec2Isabelle
  imports Main "HOL-Library.AList"
begin

section \<open>The workflow document and the Python operations on it\<close>

text \<open>
  \<^verbatim>\<open>comfy2py.py\<close> keeps in \<^verbatim>\<open>self.workflow_data\<close> whatever \<^verbatim>\<open>json.load\<close> returned: a
  tree of dicts, lists, strings, numbers, booleans and \<^verbatim>\<open>None\<close>. A dict is an association
  list in insertion order (the order in which Python iterates it); all its keys are
  strings, since they come from JSON. The program never computes with a float: a
  finite float is carried as a decimal literal that denotes it, so two floats with the
  same literal are the same float. The tree has no sharing, so an assignment through
  \<^verbatim>\<open>self.workflow_data[a]['inputs'][b] = v\<close> is an update along one path.
\<close>

datatype json =
    JNull
  | JBool bool
  | JInt int
  | JFloat string
  | JStr string
  | JArr "json list"
  | JObj "(string \<times> json) list"

text \<open>
  The exceptions the program can raise, each an error value. \<^verbatim>\<open>KeyError\<close> and
  \<^verbatim>\<open>IndexError\<close> are Python's lookup errors.
\<close>

datatype error =
    FileNotFoundError
  | JSONDecodeError
  | PermissionError
  | IsADirectoryError
  | ValueError
  | KeyError
  | TypeError
  | IndexError

text \<open>Sequencing of steps that may raise: the first exception ends the computation.\<close>

fun and_then :: "error + 'a \<Rightarrow> ('a \<Rightarrow> error + 'b) \<Rightarrow> error + 'b" where
  "and_then (Inl e) f = Inl e"
| "and_then (Inr x) f = f x"

text \<open>
  \<^verbatim>\<open>for x in c\<close>: a dict yields its keys in insertion order, a list its elements, a string
  its characters as one-character strings; any other value is not iterable.
\<close>

fun py_iter :: "json \<Rightarrow> error + json list" where
  "py_iter (JObj kvs) = Inr (map (\<lambda>kv. JStr (fst kv)) kvs)"
| "py_iter (JArr xs) = Inr xs"
| "py_iter (JStr s) = Inr (map (\<lambda>c. JStr [c]) s)"
| "py_iter _ = Inl TypeError"

text \<open>
  Python's sequence indexing \<^verbatim>\<open>xs[i]\<close>: a negative index counts from the end, anything
  out of range raises \<^verbatim>\<open>IndexError\<close>.
\<close>

definition py_index :: "'a list \<Rightarrow> int \<Rightarrow> error + 'a" where
  "py_index xs i =
     (if 0 \<le> i \<and> i < int (length xs) then Inr (xs ! nat i)
      else if i < 0 \<and> - int (length xs) \<le> i then Inr (xs ! nat (int (length xs) + i))
      else Inl IndexError)"

text \<open>
  \<^verbatim>\<open>c[k]\<close>. A dict raises \<^verbatim>\<open>KeyError\<close> for an absent key (every key that is not a string is
  absent) and \<^verbatim>\<open>TypeError\<close> for an unhashable one; a list or a string takes an integer
  (\<^verbatim>\<open>True\<close> and \<^verbatim>\<open>False\<close> are the integers 1 and 0); nothing else can be subscripted.
\<close>

fun py_getitem :: "json \<Rightarrow> json \<Rightarrow> error + json" where
  "py_getitem (JObj kvs) (JStr k) =
     (case map_of kvs k of None \<Rightarrow> Inl KeyError | Some v \<Rightarrow> Inr v)"
| "py_getitem (JObj kvs) (JArr ys) = Inl TypeError"
| "py_getitem (JObj kvs) (JObj ys) = Inl TypeError"
| "py_getitem (JObj kvs) _ = Inl KeyError"
| "py_getitem (JArr xs) (JInt i) = py_index xs i"
| "py_getitem (JArr xs) (JBool b) = py_index xs (if b then 1 else 0)"
| "py_getitem (JArr xs) _ = Inl TypeError"
| "py_getitem (JStr s) (JInt i) = and_then (py_index s i) (\<lambda>c. Inr (JStr [c]))"
| "py_getitem (JStr s) (JBool b) =
     and_then (py_index s (if b then 1 else 0)) (\<lambda>c. Inr (JStr [c]))"
| "py_getitem (JStr s) _ = Inl TypeError"
| "py_getitem _ _ = Inl TypeError"

text \<open>
  \<^verbatim>\<open>k in c\<close> for a string \<^verbatim>\<open>k\<close>: key membership in a dict, element membership in a list
  (a string equals only an equal string), substring test in a string.
\<close>

fun is_substring :: "string \<Rightarrow> string \<Rightarrow> bool" where
  "is_substring k [] = (k = [])"
| "is_substring k (c # s) = (take (length k) (c # s) = k \<or> is_substring k s)"

fun py_in :: "string \<Rightarrow> json \<Rightarrow> error + bool" where
  "py_in k (JObj kvs) = Inr (k \<in> set (map fst kvs))"
| "py_in k (JArr xs) = Inr (JStr k \<in> set xs)"
| "py_in k (JStr s) = Inr (is_substring k s)"
| "py_in k _ = Inl TypeError"

text \<open>
  \<^verbatim>\<open>c[k] = v\<close> for a string \<^verbatim>\<open>k\<close>: a dict overwrites the key where it stands, or
  appends it; a list does not take a string index and a string is immutable.
\<close>

fun py_setitem :: "json \<Rightarrow> string \<Rightarrow> json \<Rightarrow> error + json" where
  "py_setitem (JObj kvs) k v = Inr (JObj (AList.update k v kvs))"
| "py_setitem _ k v = Inl TypeError"

text \<open>
  The container \<^verbatim>\<open>c\<close> after the item that \<^verbatim>\<open>c[k]\<close> returned has been mutated into
  \<^verbatim>\<open>v\<close>. Only a dict entry or a list element can be mutated in place.
\<close>

fun py_store :: "json \<Rightarrow> json \<Rightarrow> json \<Rightarrow> json" where
  "py_store (JObj kvs) (JStr k) v = JObj (AList.update k v kvs)"
| "py_store (JArr xs) (JInt i) v =
     JArr (xs[nat (if i < 0 then int (length xs) + i else i) := v])"
| "py_store (JArr xs) (JBool b) v = JArr (xs[(if b then 1 else 0) := v])"
| "py_store c k v = c"

text \<open>\<^verbatim>\<open>self.workflow_data[node]['inputs']\<close>\<close>

definition node_inputs :: "json \<Rightarrow> json \<Rightarrow> error + json" where
  "node_inputs workflow_data node =
     and_then (py_getitem workflow_data node) (\<lambda>n. py_getitem n (JStr ''inputs''))"

text \<open>
  \<^verbatim>\<open>self.workflow_data[node]['inputs'][key] = v\<close>: the two reads, the assignment, and
  the document with the mutated \<^verbatim>\<open>inputs\<close> dict in its place. A read or the assignment
  that raises leaves the document as it was.
\<close>

definition set_input :: "json \<Rightarrow> json \<Rightarrow> string \<Rightarrow> json \<Rightarrow> error + json" where
  "set_input workflow_data node key v =
     and_then (py_getitem workflow_data node) (\<lambda>n.
     and_then (py_getitem n (JStr ''inputs'')) (\<lambda>inp.
     and_then (py_setitem inp key v) (\<lambda>inp'.
       Inr (py_store workflow_data node (py_store n (JStr ''inputs'') inp')))))"

section \<open>The environment: files, the imported modules, the network, the terminal\<close>

text \<open>
  The file system is a store of regular files by path. \<^verbatim>\<open>os.path.exists\<close> holds of the
  paths in the store, and a file that exists can be read. \<^verbatim>\<open>open(path, 'w')\<close> creates or
  truncates the file, unless the operating system refuses: under a missing directory it
  raises \<^verbatim>\<open>FileNotFoundError\<close>, without the permission to write \<^verbatim>\<open>PermissionError\<close>, and on
  a directory \<^verbatim>\<open>IsADirectoryError\<close>. Which paths are refused, and why, is part of the state
  of the file system.
\<close>

datatype open_failure = Missing_directory | Permission_denied | Is_a_directory

fun open_error :: "open_failure \<Rightarrow> error" where
  "open_error Missing_directory = FileNotFoundError"
| "open_error Permission_denied = PermissionError"
| "open_error Is_a_directory = IsADirectoryError"

record filesystem =
  files :: "string \<rightharpoonup> string"
  refuses :: "string \<Rightarrow> open_failure option"

text \<open>
  The functions the program imports from modules outside \<^verbatim>\<open>comfy2py.py\<close>:
  \<^verbatim>\<open>json.load\<close> (as a parser of the file's text, \<open>None\<close> standing for \<^verbatim>\<open>JSONDecodeError\<close>),
  \<^verbatim>\<open>json.dump\<close> (as the text written), and \<^verbatim>\<open>execution.validate_prompt\<close>, of which
  \<^verbatim>\<open>__init__\<close> reads the truth value only. The methods of the class take them as
  parameters; the module \<^verbatim>\<open>json\<close> of Python is modelled in the next section.
\<close>

record modules =
  json_loads :: "string \<Rightarrow> json option"
  json_dumps :: "json \<Rightarrow> string"
  validate_prompt :: "json \<Rightarrow> bool"

text \<open>A request handed to \<^verbatim>\<open>urllib.request\<close>; a request with data is a POST.\<close>

record http_request =
  url :: string
  data :: string

text \<open>
  The state of the module \<^verbatim>\<open>random\<close>: a sequence of raw draws and the number consumed.
  \<^verbatim>\<open>random.randint(a, b)\<close> is \<^verbatim>\<open>a + _randbelow(b - a + 1)\<close>, which returns an integer
  \<open>N\<close> with \<open>a \<le> N \<le> b\<close>, every one of them possible.
\<close>

record random_state =
  raw :: "nat \<Rightarrow> nat"
  pos :: nat

definition randint :: "int \<Rightarrow> int \<Rightarrow> random_state \<Rightarrow> int \<times> random_state" where
  "randint a b g =
     (a + int (raw g (pos g) mod nat (b - a + 1)), g\<lparr>pos := pos g + 1\<rparr>)"

text \<open>
  What the program prints, one value per \<^verbatim>\<open>print\<close> call. The formatting of a value by an
  f-string is left out: a line is the message and the value it shows.
\<close>

datatype out =
    Positive_prompt json
  | Negative_prompt json
  | No_positive_node_found
  | No_negative_node_found
  | Model json
  | Pretty json

text \<open>\<^verbatim>\<open>s.endswith(suffix)\<close>\<close>

definition endswith :: "string \<Rightarrow> string \<Rightarrow> bool" where
  "endswith s suf =
     (length suf \<le> length s \<and> drop (length s - length suf) s = suf)"

text \<open>\<^verbatim>\<open>os.path.join(a, b)\<close> on POSIX: an absolute \<^verbatim>\<open>b\<close> replaces \<^verbatim>\<open>a\<close>.\<close>

definition path_join :: "string \<Rightarrow> string \<Rightarrow> string" where
  "path_join a b =
     (if take 1 b = ''/'' then b
      else if a = [] \<or> endswith a ''/'' then a @ b
      else a @ ''/'' @ b)"

definition DEFAULT_WORKFLOW_PATH :: string where
  "DEFAULT_WORKFLOW_PATH = ''/Users/simondharcourt/Downloads''"

section \<open>The module \<^verbatim>\<open>json\<close>\<close>

text \<open>
  \<^verbatim>\<open>json.dump\<close> writes to the file the text \<^verbatim>\<open>json.dumps\<close> returns, and \<^verbatim>\<open>json.load\<close>
  parses the text of the file as \<^verbatim>\<open>json.loads\<close> does. Both are called with their default
  arguments. The printer separates items by a comma and a space and a key from its value
  by a colon and a space, and in a string escapes the quote, the backslash and every
  character outside the printable ASCII range. A character of \<open>string\<close> is a code point
  below 256.
\<close>

text \<open>The digit of a number below 16, and the decimal digits of a natural number.\<close>

definition digit_char :: "nat \<Rightarrow> char" where
  "digit_char d = ''0123456789abcdef'' ! (d mod 16)"

function show_nat :: "nat \<Rightarrow> string" where
  "show_nat n = (if n < 10 then [digit_char n] else show_nat (n div 10) @ [digit_char (n mod 10)])"
  by pat_completeness auto
termination
  by (relation "measure id") auto

declare show_nat.simps [simp del]

text \<open>Python writes an integer in decimal.\<close>

definition show_int :: "int \<Rightarrow> string" where
  "show_int i = (if i < 0 then CHR ''-'' # show_nat (nat (- i)) else show_nat (nat i))"

text \<open>
  The escapes of a string: the short forms, and \<^verbatim>\<open>\u00XX\<close> for the other characters that
  are not printable ASCII.
\<close>

definition escape_char :: "char \<Rightarrow> string" where
  "escape_char c =
     (if c = CHR 0x22 then [CHR 0x5C, CHR 0x22]
      else if c = CHR 0x5C then [CHR 0x5C, CHR 0x5C]
      else if c = CHR 0x0A then [CHR 0x5C, CHR ''n'']
      else if c = CHR 0x0D then [CHR 0x5C, CHR ''r'']
      else if c = CHR 0x09 then [CHR 0x5C, CHR ''t'']
      else if c = CHR 0x08 then [CHR 0x5C, CHR ''b'']
      else if c = CHR 0x0C then [CHR 0x5C, CHR ''f'']
      else if 32 \<le> (of_char c :: nat) \<and> (of_char c :: nat) \<le> 126 then [c]
      else [CHR 0x5C, CHR ''u'', CHR ''0'', CHR ''0'',
            digit_char (of_char c div 16), digit_char (of_char c mod 16)])"

definition dump_string :: "string \<Rightarrow> string" where
  "dump_string s = CHR 0x22 # concat (map escape_char s) @ [CHR 0x22]"

text \<open>The items of a list or of a dict, separated.\<close>

fun join :: "string list \<Rightarrow> string" where
  "join [] = []"
| "join [x] = x"
| "join (x # y # ys) = x @ '', '' @ join (y # ys)"

text \<open>\<^verbatim>\<open>json.dumps(obj)\<close>: of a float, the literal.\<close>

fun dumps :: "json \<Rightarrow> string" where
  "dumps JNull = ''null''"
| "dumps (JBool b) = (if b then ''true'' else ''false'')"
| "dumps (JInt i) = show_int i"
| "dumps (JFloat lit) = lit"
| "dumps (JStr s) = dump_string s"
| "dumps (JArr xs) = ''['' @ join (map dumps xs) @ '']''"
| "dumps (JObj kvs) =
     ''{'' @ join (map (\<lambda>kv. dump_string (fst kv) @ '': '' @ dumps (snd kv)) kvs) @ ''}''"

text \<open>
  The parser follows the scanner of \<^verbatim>\<open>json.loads\<close>: white space is allowed around every
  token, a number is the longest run of number characters and has to fit the grammar
  of JSON (an integer when it has neither a fraction nor an exponent, a float
  otherwise), a string has its escapes undone and no raw control character, a trailing
  comma is an error, and of a key written twice in an object the last value stays, at
  the place of the first. The three constants that are no JSON and that the module
  also reads and writes (\<^verbatim>\<open>NaN\<close>, \<^verbatim>\<open>Infinity\<close>, \<^verbatim>\<open>-Infinity\<close>) are left out, as are escapes
  of code points above 255.
\<close>

text \<open>White space, and the characters a number is made of.\<close>

definition is_ws :: "char \<Rightarrow> bool" where
  "is_ws c \<longleftrightarrow> c \<in> set [CHR '' '', CHR 0x09, CHR 0x0A, CHR 0x0D]"

definition skip_ws :: "string \<Rightarrow> string" where
  "skip_ws s = dropWhile is_ws s"

definition hex_val :: "char \<Rightarrow> nat option" where
  "hex_val c =
     map_of (zip ''0123456789abcdef'' [0 ..< 16] @ zip ''ABCDEF'' [10 ..< 16]) c"

definition is_digit :: "char \<Rightarrow> bool" where
  "is_digit c \<longleftrightarrow> c \<in> set ''0123456789''"

definition digit_val :: "char \<Rightarrow> nat" where
  "digit_val c = (case hex_val c of None \<Rightarrow> 0 | Some d \<Rightarrow> d)"

definition nat_of_digits :: "string \<Rightarrow> nat" where
  "nat_of_digits ds = foldl (\<lambda>a c. 10 * a + digit_val c) 0 ds"

definition is_num_char :: "char \<Rightarrow> bool" where
  "is_num_char c \<longleftrightarrow> c \<in> set ''0123456789+-.eE''"

text \<open>
  The exponent, and the fraction with or without an exponent, that make a number a float:
  \<^verbatim>\<open>(\.[0-9]+)?([eE][-+]?[0-9]+)?\<close>, not empty.
\<close>

definition exp_ok :: "string \<Rightarrow> bool" where
  "exp_ok r =
     (case r of
        [] \<Rightarrow> False
      | e # r' \<Rightarrow>
          (e = CHR ''e'' \<or> e = CHR ''E'') \<and>
          (let ds = (case r' of
                       [] \<Rightarrow> []
                     | s # r'' \<Rightarrow> if s = CHR ''+'' \<or> s = CHR ''-'' then r'' else r')
           in ds \<noteq> [] \<and> list_all is_digit ds))"

definition frac_exp_ok :: "string \<Rightarrow> bool" where
  "frac_exp_ok r =
     (case r of
        [] \<Rightarrow> False
      | c # r' \<Rightarrow>
          if c = CHR ''.''
          then takeWhile is_digit r' \<noteq> [] \<and>
               (dropWhile is_digit r' = [] \<or> exp_ok (dropWhile is_digit r'))
          else exp_ok r)"

text \<open>
  A number: an optional minus and the integer part \<^verbatim>\<open>0|[1-9][0-9]*\<close>, alone an integer,
  with a fraction or an exponent a float.
\<close>

definition number_token :: "string \<Rightarrow> json option" where
  "number_token tok =
     (let neg = (take 1 tok = ''-'');
          body = (if neg then drop 1 tok else tok);
          ds = takeWhile is_digit body;
          r = dropWhile is_digit body
      in if ds = [] \<or> (hd ds = CHR ''0'' \<and> length ds \<noteq> 1) then None
         else if r = [] then
           Some (JInt (if neg then - int (nat_of_digits ds) else int (nat_of_digits ds)))
         else if frac_exp_ok r then Some (JFloat tok)
         else None)"

text \<open>The escapes of a string undone; \<^verbatim>\<open>\uXXXX\<close> takes four hexadecimal digits.\<close>

definition unescape :: "char \<Rightarrow> char option" where
  "unescape e =
     map_of [(CHR 0x22, CHR 0x22), (CHR 0x5C, CHR 0x5C), (CHR ''/'', CHR ''/''),
             (CHR ''b'', CHR 0x08), (CHR ''f'', CHR 0x0C), (CHR ''n'', CHR 0x0A),
             (CHR ''r'', CHR 0x0D), (CHR ''t'', CHR 0x09)] e"

definition hex4 :: "char \<Rightarrow> char \<Rightarrow> char \<Rightarrow> char \<Rightarrow> nat option" where
  "hex4 a b c d =
     (case (hex_val a, hex_val b, hex_val c, hex_val d) of
        (Some x, Some y, Some z, Some w) \<Rightarrow> Some (4096 * x + 256 * y + 16 * z + w)
      | _ \<Rightarrow> None)"

text \<open>A string, after its opening quote: the string and the text after the closing quote.\<close>

fun parse_string :: "string \<Rightarrow> (string \<times> string) option" where
  "parse_string [] = None"
| "parse_string (c # r) =
     (if c = CHR 0x22 then Some ([], r)
      else if c = CHR 0x5C then
        (case r of
           [] \<Rightarrow> None
         | e # r1 \<Rightarrow>
             if e = CHR ''u'' then
               (case r1 of
                  a # b # c # d # r2 \<Rightarrow>
                    (case hex4 a b c d of
                       None \<Rightarrow> None
                     | Some n \<Rightarrow>
                         if n < 256
                         then map_option (\<lambda>(s, rest). (char_of n # s, rest)) (parse_string r2)
                         else None)
                | _ \<Rightarrow> None)
             else
               (case unescape e of
                  None \<Rightarrow> None
                | Some ch \<Rightarrow> map_option (\<lambda>(s, rest). (ch # s, rest)) (parse_string r1)))
      else if (of_char c :: nat) < 32 then None
      else map_option (\<lambda>(s, rest). (c # s, rest)) (parse_string r))"

text \<open>\<^verbatim>\<open>dict(pairs)\<close>\<close>

definition dict :: "(string \<times> json) list \<Rightarrow> (string \<times> json) list" where
  "dict pairs = foldl (\<lambda>d kv. AList.update (fst kv) (snd kv) d) [] pairs"

text \<open>
  A value, the elements of a list after the bracket, and the members of an object after
  the brace. The first argument bounds the calls still allowed; \<open>loads\<close> starts with
  more than the length of the text. That this is enough for every text the printer
  writes is part of \<open>loads_dumps\<close> below.
\<close>

fun parse_value :: "nat \<Rightarrow> string \<Rightarrow> (json \<times> string) option"
  and parse_elements :: "nat \<Rightarrow> string \<Rightarrow> (json list \<times> string) option"
  and parse_members :: "nat \<Rightarrow> string \<Rightarrow> ((string \<times> json) list \<times> string) option" where
  "parse_value 0 s = None"
| "parse_value (Suc f) s =
     (case s of
        [] \<Rightarrow> None
      | c # r \<Rightarrow>
          if c = CHR 0x22 then
            map_option (\<lambda>(str, rest). (JStr str, rest)) (parse_string r)
          else if c = CHR ''{'' then
            (if take 1 (skip_ws r) = ''}'' then Some (JObj [], drop 1 (skip_ws r))
             else map_option (\<lambda>(pairs, rest). (JObj (dict pairs), rest))
                    (parse_members f (skip_ws r)))
          else if c = CHR ''['' then
            (if take 1 (skip_ws r) = '']'' then Some (JArr [], drop 1 (skip_ws r))
             else map_option (\<lambda>(xs, rest). (JArr xs, rest)) (parse_elements f (skip_ws r)))
          else if take 4 s = ''null'' then Some (JNull, drop 4 s)
          else if take 4 s = ''true'' then Some (JBool True, drop 4 s)
          else if take 5 s = ''false'' then Some (JBool False, drop 5 s)
          else map_option (\<lambda>v. (v, dropWhile is_num_char s))
                 (number_token (takeWhile is_num_char s)))"
| "parse_elements 0 s = None"
| "parse_elements (Suc f) s =
     (case parse_value f s of
        None \<Rightarrow> None
      | Some (v, r) \<Rightarrow>
          if take 1 (skip_ws r) = '']'' then Some ([v], drop 1 (skip_ws r))
          else if take 1 (skip_ws r) = '','' then
            map_option (\<lambda>(vs, rest). (v # vs, rest))
              (parse_elements f (skip_ws (drop 1 (skip_ws r))))
          else None)"
| "parse_members 0 s = None"
| "parse_members (Suc f) s =
     (if take 1 s \<noteq> [CHR 0x22] then None
      else
        (case parse_string (drop 1 s) of
           None \<Rightarrow> None
         | Some (k, r) \<Rightarrow>
             if take 1 (skip_ws r) \<noteq> '':'' then None
             else
               (case parse_value f (skip_ws (drop 1 (skip_ws r))) of
                  None \<Rightarrow> None
                | Some (v, r') \<Rightarrow>
                    if take 1 (skip_ws r') = ''}'' then Some ([(k, v)], drop 1 (skip_ws r'))
                    else if take 1 (skip_ws r') = '','' then
                      map_option (\<lambda>(kvs, rest). ((k, v) # kvs, rest))
                        (parse_members f (skip_ws (drop 1 (skip_ws r'))))
                    else None)))"

text \<open>\<^verbatim>\<open>json.loads(s)\<close>; \<open>None\<close> stands for \<^verbatim>\<open>JSONDecodeError\<close>.\<close>

definition loads :: "string \<Rightarrow> json option" where
  "loads s =
     (case parse_value (Suc (length s)) (skip_ws s) of
        None \<Rightarrow> None
      | Some (d, rest) \<Rightarrow> if skip_ws rest = [] then Some d else None)"

text \<open>The environment in which \<^verbatim>\<open>json\<close> is this module.\<close>

definition python_json :: "(json \<Rightarrow> bool) \<Rightarrow> modules" where
  "python_json validate =
     \<lparr>json_loads = loads, json_dumps = dumps, validate_prompt = validate\<rparr>"

section \<open>The class \<^verbatim>\<open>Workflow\<close>\<close>

record workflow =
  workflow_name :: string
  workflow_data :: json

text \<open>
  \<^verbatim>\<open>load_workflow\<close>, on \<^verbatim>\<open>self.workflow_name\<close>: the name it leaves in the attribute, and
  the document or the exception.
\<close>

definition load_workflow ::
  "modules \<Rightarrow> filesystem \<Rightarrow> string \<Rightarrow> string \<times> (error + json)" where
  "load_workflow m fs name =
     (let name' = (if \<not> endswith name ''.json'' then name @ ''.json'' else name);
          workflow_path = path_join DEFAULT_WORKFLOW_PATH name'
      in (name',
          case files fs workflow_path of
            None \<Rightarrow> Inl FileNotFoundError
          | Some text \<Rightarrow>
              (case json_loads m text of
                 None \<Rightarrow> Inl JSONDecodeError
               | Some d \<Rightarrow> Inr d)))"

definition is_valid :: "modules \<Rightarrow> workflow \<Rightarrow> bool" where
  "is_valid m w = validate_prompt m (workflow_data w)"

text \<open>\<^verbatim>\<open>Workflow(workflow_name)\<close>: the object, or the exception that leaves none.\<close>

definition Workflow_init :: "modules \<Rightarrow> filesystem \<Rightarrow> string \<Rightarrow> error + workflow" where
  "Workflow_init m fs name =
     (case load_workflow m fs name of
        (name', Inl e) \<Rightarrow> Inl e
      | (name', Inr d) \<Rightarrow>
          (let w = \<lparr>workflow_name = name', workflow_data = d\<rparr>
           in if \<not> is_valid m w then Inl ValueError else Inr w))"

text \<open>
  The loop of \<^verbatim>\<open>get_prompt_node_id\<close> and of \<^verbatim>\<open>get_node_id\<close> (the two bodies are the
  same text): \<open>None\<close> when the loop ends without a \<^verbatim>\<open>return\<close>.
\<close>

fun find_link :: "json \<Rightarrow> string \<Rightarrow> json list \<Rightarrow> error + json option" where
  "find_link d key [] = Inr None"
| "find_link d key (node # rest) =
     and_then (node_inputs d node) (\<lambda>inp.
     and_then (py_in key inp) (\<lambda>found.
       if found then
         and_then (node_inputs d node) (\<lambda>inp.
         and_then (py_getitem inp (JStr key)) (\<lambda>link.
         and_then (py_getitem link (JInt 0)) (\<lambda>node_id. Inr (Some node_id))))
       else find_link d key rest))"

text \<open>\<^verbatim>\<open>get_prompt_node_id\<close>; Python's \<^verbatim>\<open>None\<close> is \<open>JNull\<close>.\<close>

definition get_prompt_node_id :: "workflow \<Rightarrow> string \<Rightarrow> error + json" where
  "get_prompt_node_id w tone =
     (if tone \<notin> set [''positive'', ''negative''] then Inl ValueError
      else and_then (py_iter (workflow_data w)) (\<lambda>nodes.
           and_then (find_link (workflow_data w) tone nodes) (\<lambda>r.
             case r of Some node_id \<Rightarrow> Inr node_id | None \<Rightarrow> Inr JNull)))"

text \<open>
  The two prompt updates return the object, what was printed, and the exception if one
  was raised.
\<close>

definition update_positive_prompt ::
  "workflow \<Rightarrow> string \<Rightarrow> workflow \<times> out list \<times> error option" where
  "update_positive_prompt w prompt =
     (case get_prompt_node_id w ''positive'' of
        Inl e \<Rightarrow> (w, [], Some e)
      | Inr positive_node_id \<Rightarrow>
          if positive_node_id \<noteq> JNull then
            (case set_input (workflow_data w) positive_node_id ''text'' (JStr prompt) of
               Inl e \<Rightarrow> (w, [], Some e)
             | Inr d \<Rightarrow> (w\<lparr>workflow_data := d\<rparr>, [], None))
          else (w, [No_positive_node_found], None))"

definition update_negative_prompt ::
  "workflow \<Rightarrow> string \<Rightarrow> workflow \<times> out list \<times> error option" where
  "update_negative_prompt w prompt =
     (case get_prompt_node_id w ''negative'' of
        Inl e \<Rightarrow> (w, [], Some e)
      | Inr negative_node_id \<Rightarrow>
          if negative_node_id \<noteq> JNull then
            (case set_input (workflow_data w) negative_node_id ''text'' (JStr prompt) of
               Inl e \<Rightarrow> (w, [], Some e)
             | Inr d \<Rightarrow> (w\<lparr>workflow_data := d\<rparr>, [], None))
          else (w, [No_negative_node_found], None))"

text \<open>\<^verbatim>\<open>self.workflow_data[node_id]['inputs'][field]\<close>, as the \<^verbatim>\<open>print\<close> calls read it.\<close>

definition input_of :: "workflow \<Rightarrow> json \<Rightarrow> string \<Rightarrow> error + json" where
  "input_of w node_id field =
     and_then (node_inputs (workflow_data w) node_id) (\<lambda>inp. py_getitem inp (JStr field))"

text \<open>\<^verbatim>\<open>show_prompts\<close>: the lines printed, and the exception if one was raised.\<close>

definition show_prompts :: "workflow \<Rightarrow> out list \<times> error option" where
  "show_prompts w =
     (case get_prompt_node_id w ''positive'' of
        Inl e \<Rightarrow> ([], Some e)
      | Inr positive_node_id \<Rightarrow>
     (case get_prompt_node_id w ''negative'' of
        Inl e \<Rightarrow> ([], Some e)
      | Inr negative_node_id \<Rightarrow>
     (case (if positive_node_id \<noteq> JNull
            then and_then (input_of w positive_node_id ''text'') (\<lambda>t. Inr [Positive_prompt t])
            else Inr []) of
        Inl e \<Rightarrow> ([], Some e)
      | Inr printed \<Rightarrow>
          if negative_node_id \<noteq> JNull then
            (case input_of w negative_node_id ''text'' of
               Inl e \<Rightarrow> (printed, Some e)
             | Inr t \<Rightarrow> (printed @ [Negative_prompt t], None))
          else (printed, None))))"

definition get_node_id :: "workflow \<Rightarrow> string \<Rightarrow> error + json" where
  "get_node_id w node_type =
     and_then (py_iter (workflow_data w)) (\<lambda>nodes.
     and_then (find_link (workflow_data w) node_type nodes) (\<lambda>r.
       case r of Some node_id \<Rightarrow> Inr node_id | None \<Rightarrow> Inl ValueError))"

definition print_model :: "workflow \<Rightarrow> out list \<times> error option" where
  "print_model w =
     (case get_node_id w ''model'' of
        Inl e \<Rightarrow> ([], Some e)
      | Inr model_node_id \<Rightarrow>
          if model_node_id \<noteq> JNull then
            (case input_of w model_node_id ''ckpt_name'' of
               Inl e \<Rightarrow> ([], Some e)
             | Inr t \<Rightarrow> ([Model t], None))
          else ([], None))"

text \<open>
  \<^verbatim>\<open>queue_prompt\<close>, on the list of requests sent to the network so far. The method builds
  the \<^verbatim>\<open>Request\<close> object and returns: the one line that would open it,
  \<^verbatim>\<open>request.urlopen(req)\<close>, is a comment in the source.
\<close>

definition queue_prompt ::
  "modules \<Rightarrow> workflow \<Rightarrow> string \<Rightarrow> http_request list \<Rightarrow> http_request list" where
  "queue_prompt m w server_adress sent =
     (let prompt = JObj [(''prompt'', workflow_data w)];
          data = json_dumps m prompt;
          req = \<lparr>url = ''http://'' @ server_adress @ ''/prompt'', data = data\<rparr>
      in sent)"

definition describe :: "workflow \<Rightarrow> out list" where
  "describe w = [Pretty (workflow_data w)]"

text \<open>
  The loop of \<^verbatim>\<open>update_steps\<close>, over the nodes still to visit: the document as the loop
  leaves it, and the exception if one ended it. The nodes to visit are those the document
  yields when the loop starts. The body assigns inside an \<^verbatim>\<open>inputs\<close> dict only, so it never
  changes the keys of the document, nor, where the document is a list, the integers in
  it, and a later iteration reads nothing else of what the iterator yields: indexing a
  list with a dict raises \<^verbatim>\<open>TypeError\<close> whatever the dict holds.
\<close>

fun update_steps_loop :: "json \<Rightarrow> json list \<Rightarrow> json \<Rightarrow> json \<times> error option" where
  "update_steps_loop steps [] d = (d, None)"
| "update_steps_loop steps (node # rest) d =
     (case and_then (node_inputs d node) (py_in ''steps'') of
        Inl e \<Rightarrow> (d, Some e)
      | Inr found \<Rightarrow>
          if found then
            (case set_input d node ''steps'' steps of
               Inl e \<Rightarrow> (d, Some e)
             | Inr d' \<Rightarrow> update_steps_loop steps rest d')
          else update_steps_loop steps rest d)"

text \<open>\<^verbatim>\<open>update_steps(steps)\<close>, where \<^verbatim>\<open>steps\<close> is an integer or the default \<^verbatim>\<open>None\<close>.\<close>

definition update_steps :: "workflow \<Rightarrow> int option \<Rightarrow> workflow \<times> error option" where
  "update_steps w steps =
     (case py_iter (workflow_data w) of
        Inl e \<Rightarrow> (w, Some e)
      | Inr nodes \<Rightarrow>
          (case update_steps_loop (case steps of None \<Rightarrow> JNull | Some n \<Rightarrow> JInt n)
                  nodes (workflow_data w) of
             (d, r) \<Rightarrow> (w\<lparr>workflow_data := d\<rparr>, r)))"

text \<open>
  The loop of \<^verbatim>\<open>update_seed\<close>. Python evaluates the right-hand side of the assignment,
  the call of \<^verbatim>\<open>random.randint\<close>, before the reads of its target.
\<close>

fun update_seed_loop ::
  "int \<Rightarrow> json list \<Rightarrow> json \<Rightarrow> random_state \<Rightarrow> json \<times> random_state \<times> error option" where
  "update_seed_loop seed [] d g = (d, g, None)"
| "update_seed_loop seed (node # rest) d g =
     (case and_then (node_inputs d node) (py_in ''seed'') of
        Inl e \<Rightarrow> (d, g, Some e)
      | Inr found \<Rightarrow>
          if found then
            (if seed = - 1 then
               (case randint 0 1000000 g of
                  (r, g') \<Rightarrow>
                    (case set_input d node ''seed'' (JInt r) of
                       Inl e \<Rightarrow> (d, g', Some e)
                     | Inr d' \<Rightarrow> update_seed_loop seed rest d' g'))
             else
               (case set_input d node ''seed'' (JInt seed) of
                  Inl e \<Rightarrow> (d, g, Some e)
                | Inr d' \<Rightarrow> update_seed_loop seed rest d' g))
          else update_seed_loop seed rest d g)"

definition update_seed ::
  "workflow \<Rightarrow> int \<Rightarrow> random_state \<Rightarrow> workflow \<times> random_state \<times> error option" where
  "update_seed w seed g =
     (case py_iter (workflow_data w) of
        Inl e \<Rightarrow> (w, g, Some e)
      | Inr nodes \<Rightarrow>
          (case update_seed_loop seed nodes (workflow_data w) g of
             (d, g', r) \<Rightarrow> (w\<lparr>workflow_data := d\<rparr>, g', r)))"

text \<open>\<^verbatim>\<open>save_workflow(workflow_name)\<close>, where the argument may be the default \<^verbatim>\<open>None\<close>.\<close>

definition save_workflow ::
  "modules \<Rightarrow> workflow \<Rightarrow> string option \<Rightarrow> filesystem \<Rightarrow> filesystem \<times> error option" where
  "save_workflow m w arg fs =
     (let name = (case arg of None \<Rightarrow> workflow_name w | Some n \<Rightarrow> n);
          name' = (if \<not> endswith name ''.json'' then name @ ''.json'' else name);
          path = path_join DEFAULT_WORKFLOW_PATH name'
      in case refuses fs path of
           Some failure \<Rightarrow> (fs, Some (open_error failure))
         | None \<Rightarrow>
             (fs\<lparr>files := (files fs)(path \<mapsto> json_dumps m (workflow_data w))\<rparr>, None))"

section \<open>The data model of the specification\<close>

text \<open>
  The specification's workflow document is a mapping from node ids to node records, each
  with an \<^verbatim>\<open>inputs\<close> mapping. \<open>inputs_of\<close> is that mapping where a value has one.
\<close>

fun inputs_of :: "json \<Rightarrow> (string \<times> json) list option" where
  "inputs_of (JObj attrs) =
     (case map_of attrs ''inputs'' of Some (JObj inps) \<Rightarrow> Some inps | _ \<Rightarrow> None)"
| "inputs_of _ = None"

definition has_input :: "string \<Rightarrow> json \<Rightarrow> bool" where
  "has_input key n =
     (case inputs_of n of Some inps \<Rightarrow> key \<in> set (map fst inps) | None \<Rightarrow> False)"

text \<open>A dict has each key once; \<open>is_document\<close> asks it of the node ids.\<close>

definition is_document :: "json \<Rightarrow> bool" where
  "is_document d =
     (case d of
        JObj nodes \<Rightarrow>
          distinct (map fst nodes) \<and> list_all (\<lambda>p. inputs_of (snd p) \<noteq> None) nodes
      | _ \<Rightarrow> False)"

text \<open>
  The node id a link pair \<^verbatim>\<open>[node_id, output_index]\<close> refers to.
\<close>

fun link_target :: "json \<Rightarrow> string option" where
  "link_target (JArr (JStr r # rest)) = Some r"
| "link_target _ = None"

text \<open>
  The input \<open>key\<close> of a node, where the node has one, is a link to a node of the document.
\<close>

definition link_ok :: "(string \<times> json) list \<Rightarrow> string \<Rightarrow> json \<Rightarrow> bool" where
  "link_ok nodes key n =
     (case inputs_of n of
        None \<Rightarrow> True
      | Some inps \<Rightarrow>
          (case map_of inps key of
             None \<Rightarrow> True
           | Some v \<Rightarrow>
               (case link_target v of None \<Rightarrow> False | Some r \<Rightarrow> r \<in> set (map fst nodes))))"

text \<open>
  A well-formed document: the prompt links of every node resolve.
\<close>

definition well_formed :: "json \<Rightarrow> bool" where
  "well_formed d =
     (is_document d \<and>
      (case d of
         JObj nodes \<Rightarrow>
           list_all (\<lambda>p. link_ok nodes ''positive'' (snd p) \<and> link_ok nodes ''negative'' (snd p))
             nodes
       | _ \<Rightarrow> False))"

text \<open>
  A node with the input \<open>key\<close> set to \<open>v\<close>, every other input and attribute as it was.
\<close>

fun with_input :: "string \<Rightarrow> json \<Rightarrow> json \<Rightarrow> json" where
  "with_input key v (JObj attrs) =
     (case map_of attrs ''inputs'' of
        Some (JObj inps) \<Rightarrow> JObj (AList.update ''inputs'' (JObj (AList.update key v inps)) attrs)
      | _ \<Rightarrow> JObj attrs)"
| "with_input key v n = n"

text \<open>The value of one input of a node, and of one attribute of a node.\<close>

definition node_input :: "json \<Rightarrow> string \<Rightarrow> json option" where
  "node_input n key = (case inputs_of n of None \<Rightarrow> None | Some inps \<Rightarrow> map_of inps key)"

fun node_attr :: "json \<Rightarrow> string \<Rightarrow> json option" where
  "node_attr (JObj attrs) a = map_of attrs a"
| "node_attr _ a = None"

text \<open>
  A document as Python holds it in memory: every dict has each key once, and the literal
  of every float is a number of the JSON grammar with a fraction or an exponent.
\<close>

fun in_memory :: "json \<Rightarrow> bool" where
  "in_memory (JFloat lit) \<longleftrightarrow>
     list_all is_num_char lit \<and> number_token lit = Some (JFloat lit)"
| "in_memory (JArr xs) \<longleftrightarrow> (\<forall>x \<in> set xs. in_memory x)"
| "in_memory (JObj kvs) \<longleftrightarrow>
     distinct (map fst kvs) \<and> (\<forall>kv \<in> set kvs. in_memory (snd kv))"
| "in_memory _ \<longleftrightarrow> True"

section \<open>An example workflow\<close>

definition example_sampler_inputs :: "(string \<times> json) list" where
  "example_sampler_inputs =
     [(''seed'', JInt 5), (''steps'', JInt 20), (''cfg'', JFloat ''8.0''),
      (''model'', JArr [JStr ''4'', JInt 0]),
      (''positive'', JArr [JStr ''6'', JInt 0]),
      (''latent_image'', JArr [JStr ''5'', JInt 0])]"

definition example_sampler :: json where
  "example_sampler =
     JObj [(''class_type'', JStr ''KSampler''), (''inputs'', JObj example_sampler_inputs)]"

definition example_loader :: json where
  "example_loader =
     JObj [(''class_type'', JStr ''CheckpointLoaderSimple''),
           (''inputs'', JObj [(''ckpt_name'', JStr ''sd.safetensors'')])]"

definition example_latent :: json where
  "example_latent =
     JObj [(''class_type'', JStr ''EmptyLatentImage''),
           (''inputs'', JObj [(''width'', JInt 512), (''height'', JInt 512)])]"

definition example_encode :: json where
  "example_encode =
     JObj [(''class_type'', JStr ''CLIPTextEncode''),
           (''inputs'', JObj [(''text'', JStr ''a cat''), (''clip'', JArr [JStr ''4'', JInt 1])])]"

definition example_nodes :: "(string \<times> json) list" where
  "example_nodes =
     [(''4'', example_loader), (''3'', example_sampler), (''5'', example_latent),
      (''6'', example_encode)]"

definition example_workflow :: workflow where
  "example_workflow = \<lparr>workflow_name = ''cat'', workflow_data = JObj example_nodes\<rparr>"

text \<open>A workflow with no prompt node, and two whose positive link leads nowhere.\<close>

definition bare_workflow :: workflow where
  "bare_workflow = \<lparr>workflow_name = ''bare'', workflow_data = JObj [(''4'', example_loader)]\<rparr>"

definition dangling_workflow :: workflow where
  "dangling_workflow =
     \<lparr>workflow_name = ''dangling'',
      workflow_data = JObj [(''4'', example_loader), (''3'', example_sampler)]\<rparr>"

definition headless_workflow :: workflow where
  "headless_workflow =
     \<lparr>workflow_name = ''headless'',
      workflow_data =
        JObj [(''3'', example_sampler), (''6'', JObj [(''class_type'', JStr ''CLIPTextEncode'')])]\<rparr>"

text \<open>
  A workflow with one seed, and a state of \<^verbatim>\<open>random\<close> whose every raw draw is 1000000.
\<close>

definition seed_workflow :: workflow where
  "seed_workflow =
     \<lparr>workflow_name = ''seed'',
      workflow_data = JObj [(''3'', JObj [(''inputs'', JObj [(''seed'', JInt 5)])])]\<rparr>"

definition million_draws :: random_state where
  "million_draws = \<lparr>raw = (\<lambda>i. 1000000), pos = 0\<rparr>"

text \<open>
  A directory holding one file, whose content is \<^verbatim>\<open>null\<close>, in which every path can be
  written.
\<close>

definition example_files :: filesystem where
  "example_files =
     \<lparr>files = [''/Users/simondharcourt/Downloads/bad.json'' \<mapsto> ''null''],
      refuses = (\<lambda>path. None)\<rparr>"

section \<open>Reading the nodes of a document\<close>

lemmas example_defs =
  example_workflow_def example_nodes_def example_sampler_def example_sampler_inputs_def
  example_loader_def example_latent_def example_encode_def

lemma example_is_document: "is_document (workflow_data example_workflow)"
  by (simp add: example_defs is_document_def)

lemma inputs_ofD:
  "inputs_of n = Some inps \<Longrightarrow>
   \<exists>attrs. n = JObj attrs \<and> map_of attrs ''inputs'' = Some (JObj inps)"
  by (cases n) (auto split: option.splits json.splits)

lemma node_inputs_doc:
  "map_of nodes k = Some n \<Longrightarrow> inputs_of n = Some inps \<Longrightarrow>
   node_inputs (JObj nodes) (JStr k) = Inr (JObj inps)"
  by (auto simp: node_inputs_def dest!: inputs_ofD)

lemma document_nodes:
  assumes "is_document (JObj nodes)" "p \<in> set nodes"
  shows "map_of nodes (fst p) = Some (snd p) \<and> inputs_of (snd p) \<noteq> None"
  using assms by (auto simp: is_document_def list_all_iff)

text \<open>The scan passes every node whose inputs lack the key.\<close>

lemma find_link_skip:
  assumes "\<forall>k \<in> set ks. \<exists>n. map_of nodes k = Some n \<and> inputs_of n \<noteq> None \<and> \<not> has_input key n"
  shows "find_link (JObj nodes) key (map JStr ks @ rest) = find_link (JObj nodes) key rest"
  using assms
proof (induction ks)
  case Nil
  then show ?case by simp
next
  case (Cons k ks)
  then obtain n inps where
    n: "map_of nodes k = Some n" "inputs_of n = Some inps" "\<not> has_input key n"
    by auto
  from n have "key \<notin> set (map fst inps)" by (simp add: has_input_def)
  with n Cons show ?case
    by (simp add: node_inputs_doc)
qed

text \<open>It stops at a node whose inputs have the key, and indexes the value there with 0.\<close>

lemma find_link_hit:
  assumes "map_of nodes k = Some n" "inputs_of n = Some inps" "map_of inps key = Some link"
  shows "find_link (JObj nodes) key (JStr k # rest) =
         and_then (py_getitem link (JInt 0)) (\<lambda>x. Inr (Some x))"
proof -
  from assms(3) have "key \<in> set (map fst inps)"
    by (metis map_of_eq_None_iff option.distinct(1) set_map)
  with assms show ?thesis
    by (simp add: node_inputs_doc)
qed

lemma find_link_first:
  assumes "distinct (map fst nodes)" "nodes = pre @ (k, n) # post"
    "\<forall>p \<in> set pre. inputs_of (snd p) \<noteq> None \<and> \<not> has_input key (snd p)"
    "inputs_of n = Some inps" "map_of inps key = Some link"
  shows "find_link (JObj nodes) key (map (\<lambda>kv. JStr (fst kv)) nodes) =
         and_then (py_getitem link (JInt 0)) (\<lambda>x. Inr (Some x))"
proof -
  have pre: "\<forall>k' \<in> set (map fst pre).
      \<exists>n'. map_of nodes k' = Some n' \<and> inputs_of n' \<noteq> None \<and> \<not> has_input key n'"
  proof
    fix k' assume "k' \<in> set (map fst pre)"
    then obtain p where p: "p \<in> set pre" "k' = fst p" by auto
    with assms(2) have "(fst p, snd p) \<in> set nodes" by simp
    with assms(1) have "map_of nodes (fst p) = Some (snd p)" by (rule map_of_is_SomeI)
    with p assms(3) show
      "\<exists>n'. map_of nodes k' = Some n' \<and> inputs_of n' \<noteq> None \<and> \<not> has_input key n'"
      by auto
  qed
  have "(k, n) \<in> set nodes" using assms(2) by simp
  with assms(1) have k: "map_of nodes k = Some n" by (rule map_of_is_SomeI)
  have "map (\<lambda>kv. JStr (fst kv)) nodes =
        map JStr (map fst pre) @ JStr k # map (\<lambda>kv. JStr (fst kv)) post"
    using assms(2) by simp
  then show ?thesis
    using find_link_skip [OF pre] find_link_hit [OF k assms(4) assms(5)] by simp
qed

lemma find_link_document_first:
  assumes "is_document (JObj nodes)" "nodes = pre @ (k, n) # post"
    "\<forall>p \<in> set pre. \<not> has_input key (snd p)"
    "inputs_of n = Some inps" "map_of inps key = Some link"
  shows "find_link (JObj nodes) key (map (\<lambda>kv. JStr (fst kv)) nodes) =
         and_then (py_getitem link (JInt 0)) (\<lambda>x. Inr (Some x))"
proof -
  from assms(1) have d: "distinct (map fst nodes)"
    by (simp add: is_document_def)
  from assms(1,2,3) have
    "\<forall>p \<in> set pre. inputs_of (snd p) \<noteq> None \<and> \<not> has_input key (snd p)"
    by (auto simp: is_document_def list_all_iff)
  from find_link_first [OF d assms(2) this assms(4) assms(5)] show ?thesis .
qed

lemma find_link_document_none:
  assumes "is_document (JObj nodes)" "\<forall>p \<in> set nodes. \<not> has_input key (snd p)"
  shows "find_link (JObj nodes) key (map (\<lambda>kv. JStr (fst kv)) nodes) = Inr None"
proof -
  have all: "\<forall>k' \<in> set (map fst nodes).
      \<exists>n'. map_of nodes k' = Some n' \<and> inputs_of n' \<noteq> None \<and> \<not> has_input key n'"
  proof
    fix k' assume "k' \<in> set (map fst nodes)"
    then obtain p where p: "p \<in> set nodes" "k' = fst p" by auto
    from document_nodes [OF assms(1) p(1)] p assms(2) show
      "\<exists>n'. map_of nodes k' = Some n' \<and> inputs_of n' \<noteq> None \<and> \<not> has_input key n'"
      by auto
  qed
  have "map (\<lambda>kv. JStr (fst kv)) nodes = map JStr (map fst nodes) @ []" by simp
  then show ?thesis
    using find_link_skip [OF all, of "[]"] by (simp add: comp_def)
qed

section \<open>Finding a node by role\<close>

text \<open>
  Claim C6. In a document, \<^verbatim>\<open>get_node_id\<close> and (for the keys it accepts)
  \<^verbatim>\<open>get_prompt_node_id\<close> scan the nodes in the order of the mapping. At the first node
  whose inputs contain the key, with a non-empty list as the value there, they return the
  first element of that list, which is the id the input refers to and not the id of the
  node that holds the key. When no node's inputs contain the key, \<^verbatim>\<open>get_node_id\<close> raises
  \<^verbatim>\<open>ValueError\<close> and \<^verbatim>\<open>get_prompt_node_id\<close> returns \<^verbatim>\<open>None\<close>.
\<close>

theorem find_node_by_role:
  assumes "is_document (workflow_data w)" and "workflow_data w = JObj nodes"
  shows "(\<forall>pre k n post inps node_id rest.
            nodes = pre @ (k, n) # post \<and> (\<forall>p \<in> set pre. \<not> has_input key (snd p)) \<and>
            inputs_of n = Some inps \<and> map_of inps key = Some (JArr (node_id # rest)) \<longrightarrow>
            get_node_id w key = Inr node_id \<and>
            (key \<in> {''positive'', ''negative''} \<longrightarrow> get_prompt_node_id w key = Inr node_id))
       \<and> ((\<forall>p \<in> set nodes. \<not> has_input key (snd p)) \<longrightarrow>
            get_node_id w key = Inl ValueError \<and>
            (key \<in> {''positive'', ''negative''} \<longrightarrow> get_prompt_node_id w key = Inr JNull))"
proof -
  have doc: "is_document (JObj nodes)" using assms by simp
  have first: "get_node_id w key = Inr node_id \<and>
       (key \<in> {''positive'', ''negative''} \<longrightarrow> get_prompt_node_id w key = Inr node_id)"
    if "nodes = pre @ (k, n) # post" "\<forall>p \<in> set pre. \<not> has_input key (snd p)"
       "inputs_of n = Some inps" "map_of inps key = Some (JArr (node_id # rest))"
    for pre k n post inps node_id rest
    using find_link_document_first [OF doc that] assms(2)
    by (auto simp: get_node_id_def get_prompt_node_id_def py_index_def)
  have none: "get_node_id w key = Inl ValueError \<and>
       (key \<in> {''positive'', ''negative''} \<longrightarrow> get_prompt_node_id w key = Inr JNull)"
    if "\<forall>p \<in> set nodes. \<not> has_input key (snd p)"
    using find_link_document_none [OF doc that] assms(2)
    by (auto simp: get_node_id_def get_prompt_node_id_def)
  from first none show ?thesis by blast
qed

theorem find_node_by_role_witness:
  "is_document (workflow_data example_workflow) \<and>
   get_node_id example_workflow ''model'' = Inr (JStr ''4'') \<and>
   get_prompt_node_id example_workflow ''positive'' = Inr (JStr ''6'') \<and>
   get_node_id example_workflow ''vae'' = Inl ValueError \<and>
   get_prompt_node_id example_workflow ''negative'' = Inr JNull"
proof -
  have data: "workflow_data example_workflow = JObj example_nodes"
    by (simp add: example_workflow_def)
  have split: "example_nodes = [(''4'', example_loader)] @ (''3'', example_sampler) #
      [(''5'', example_latent), (''6'', example_encode)]"
    by (simp add: example_nodes_def)
  have sampler: "inputs_of example_sampler = Some example_sampler_inputs"
    "map_of example_sampler_inputs ''model'' = Some (JArr [JStr ''4'', JInt 0])"
    "map_of example_sampler_inputs ''positive'' = Some (JArr [JStr ''6'', JInt 0])"
    by (simp_all add: example_sampler_def example_sampler_inputs_def)
  have loader: "\<not> has_input ''model'' example_loader" "\<not> has_input ''positive'' example_loader"
    by (simp_all add: has_input_def example_loader_def)
  have absent: "\<forall>p \<in> set example_nodes. \<not> has_input ''vae'' (snd p)"
    "\<forall>p \<in> set example_nodes. \<not> has_input ''negative'' (snd p)"
    by (simp_all add: has_input_def example_defs)
  note role = find_node_by_role [OF example_is_document data]
  have model: "get_node_id example_workflow ''model'' = Inr (JStr ''4'') \<and>
      (''model'' \<in> {''positive'', ''negative''} \<longrightarrow>
       get_prompt_node_id example_workflow ''model'' = Inr (JStr ''4''))"
    by (rule role [of "''model''", THEN conjunct1, rule_format,
          of "[(''4'', example_loader)]" "''3''" example_sampler
             "[(''5'', example_latent), (''6'', example_encode)]" example_sampler_inputs _
             "[JInt 0]"])
       (simp add: split sampler loader)
  have positive: "get_node_id example_workflow ''positive'' = Inr (JStr ''6'') \<and>
      (''positive'' \<in> {''positive'', ''negative''} \<longrightarrow>
       get_prompt_node_id example_workflow ''positive'' = Inr (JStr ''6''))"
    by (rule role [of "''positive''", THEN conjunct1, rule_format,
          of "[(''4'', example_loader)]" "''3''" example_sampler
             "[(''5'', example_latent), (''6'', example_encode)]" example_sampler_inputs _
             "[JInt 0]"])
       (simp add: split sampler loader)
  from role [of "''vae''", THEN conjunct2, THEN mp, OF absent(1)]
  have vae: "get_node_id example_workflow ''vae'' = Inl ValueError" by simp
  from role [of "''negative''", THEN conjunct2, THEN mp, OF absent(2)]
  have negative: "get_prompt_node_id example_workflow ''negative'' = Inr JNull" by simp
  from example_is_document model positive vae negative show ?thesis by simp
qed

text \<open>
  Claim C7. For a tone other than \<^verbatim>\<open>'positive'\<close> and \<^verbatim>\<open>'negative'\<close>,
  \<^verbatim>\<open>get_prompt_node_id\<close> raises \<^verbatim>\<open>ValueError\<close> whatever the object holds: the result
  does not depend on the document, and the method returns no new one.
\<close>

theorem unsupported_tone_raises:
  "tone \<noteq> ''positive'' \<Longrightarrow> tone \<noteq> ''negative'' \<Longrightarrow>
   get_prompt_node_id w tone = Inl ValueError"
  by (simp add: get_prompt_node_id_def)

theorem unsupported_tone_raises_witness:
  "''model'' \<noteq> ''positive'' \<and> ''model'' \<noteq> ''negative'' \<and>
   get_prompt_node_id example_workflow ''model'' = Inl ValueError \<and>
   get_prompt_node_id \<lparr>workflow_name = [], workflow_data = JNull\<rparr> ''model'' = Inl ValueError"
  using unsupported_tone_raises [of "''model''" example_workflow]
    unsupported_tone_raises [of "''model''" "\<lparr>workflow_name = [], workflow_data = JNull\<rparr>"]
  by simp

section \<open>Submission\<close>

text \<open>
  Claim C1. \<^verbatim>\<open>queue_prompt\<close> is to wrap the document as \<^verbatim>\<open>{"prompt": document}\<close> and
  POST it to \<^verbatim>\<open>http://host:port/prompt\<close>. The method sends nothing: after it the list of
  requests sent is the list before it, for every document and every address.
\<close>

theorem queue_prompt_sends_nothing:
  "queue_prompt m w server_adress sent = sent"
  by (simp add: queue_prompt_def)

section \<open>The prompt updates\<close>

lemma link_targetD: "link_target v = Some r \<Longrightarrow> \<exists>rest. v = JArr (JStr r # rest)"
  by (cases v rule: link_target.cases) auto

lemma has_inputD:
  assumes "has_input key n"
  shows "\<exists>inps v. inputs_of n = Some inps \<and> map_of inps key = Some v"
proof -
  from assms obtain inps where inps: "inputs_of n = Some inps" "key \<in> set (map fst inps)"
    by (auto simp: has_input_def split: option.splits)
  from inps(2) have "map_of inps key \<noteq> None"
    by (simp add: map_of_eq_None_iff)
  with inps(1) show ?thesis by auto
qed

text \<open>In a well-formed document the scan for a prompt key returns a node id or None.\<close>

lemma prompt_node_id_cases:
  assumes "is_document (JObj nodes)" "workflow_data w = JObj nodes"
    "\<forall>p \<in> set nodes. link_ok nodes key (snd p)" "key \<in> {''positive'', ''negative''}"
  shows "(if \<exists>p \<in> set nodes. has_input key (snd p)
          then \<exists>r. r \<in> set (map fst nodes) \<and> get_prompt_node_id w key = Inr (JStr r)
          else get_prompt_node_id w key = Inr JNull)"
proof (cases "\<exists>p \<in> set nodes. has_input key (snd p)")
  case False
  then have "\<forall>p \<in> set nodes. \<not> has_input key (snd p)" by simp
  from find_link_document_none [OF assms(1) this] assms(2,4) False show ?thesis
    by (auto simp: get_prompt_node_id_def)
next
  case True
  then have "\<exists>x \<in> set nodes. has_input key (snd x)" .
  from split_list_first_prop [OF this]
  obtain pre p post where sp: "nodes = pre @ p # post" "has_input key (snd p)"
    "\<forall>q \<in> set pre. \<not> has_input key (snd q)" by blast
  from has_inputD [OF sp(2)] obtain inps v where
    v: "inputs_of (snd p) = Some inps" "map_of inps key = Some v" by blast
  from sp(1) have "p \<in> set nodes" by simp
  with assms(3) have "link_ok nodes key (snd p)" by blast
  with v obtain r where r: "link_target v = Some r" "r \<in> set (map fst nodes)"
    by (auto simp: link_ok_def split: option.splits)
  from link_targetD [OF r(1)] obtain rest where rest: "v = JArr (JStr r # rest)" by blast
  from sp(1) have nodes: "nodes = pre @ (fst p, snd p) # post" by simp
  from find_link_document_first [OF assms(1) nodes sp(3) v(1)] v(2) rest assms(2,4)
  have "get_prompt_node_id w key = Inr (JStr r)"
    by (auto simp: get_prompt_node_id_def py_index_def)
  with r(2) True show ?thesis by auto
qed


lemma inputs_of_with_input:
  "inputs_of n = Some inps \<Longrightarrow> inputs_of (with_input key v n) = Some (AList.update key v inps)"
  by (auto dest!: inputs_ofD simp: update_conv')

lemma set_input_doc:
  "map_of nodes r = Some n \<Longrightarrow> inputs_of n = Some inps \<Longrightarrow>
   set_input (JObj nodes) (JStr r) key v = Inr (JObj (AList.update r (with_input key v n) nodes))"
  by (auto dest!: inputs_ofD simp: set_input_def)

lemma node_inputs_update_same:
  "inputs_of n = Some inps \<Longrightarrow>
   node_inputs (JObj (AList.update r (with_input field v n) nodes)) (JStr r) =
   Inr (JObj (AList.update field v inps))"
  using inputs_of_with_input [of n inps field v]
  by (auto dest!: inputs_ofD simp: node_inputs_def update_conv')

lemma node_inputs_update_other:
  "k \<noteq> r \<Longrightarrow>
   node_inputs (JObj (AList.update r n' nodes)) (JStr k) = node_inputs (JObj nodes) (JStr k)"
  by (simp add: node_inputs_def update_conv')

lemma find_link_after_set:
  assumes "map_of nodes r = Some n" "inputs_of n = Some inps" "key \<noteq> field"
  shows "find_link (JObj (AList.update r (with_input field v n) nodes)) key (map JStr ks) =
         find_link (JObj nodes) key (map JStr ks)"
proof (induction ks)
  case Nil
  then show ?case by simp
next
  case (Cons k ks)
  show ?case
  proof (cases "k = r")
    case True
    have old: "node_inputs (JObj nodes) (JStr r) = Inr (JObj inps)"
      using assms(1,2) by (rule node_inputs_doc)
    have keys: "key \<in> set (map fst (AList.update field v inps)) \<longleftrightarrow> key \<in> set (map fst inps)"
      using assms(3) by (auto simp: dom_update)
    have val: "map_of (AList.update field v inps) key = map_of inps key"
      using assms(3) by (simp add: update_conv')
    from True Cons old keys val show ?thesis
      by (simp add: node_inputs_update_same [OF assms(2)] cong: if_cong)
  next
    case False
    with Cons show ?thesis
      by (simp add: node_inputs_update_other cong: if_cong)
  qed
qed


lemma get_prompt_node_id_after_set:
  assumes "map_of nodes r = Some n" "inputs_of n = Some inps" "tone \<noteq> field"
    "workflow_data w = JObj nodes"
  shows "get_prompt_node_id (w\<lparr>workflow_data := JObj (AList.update r (with_input field v n) nodes)\<rparr>)
           tone = get_prompt_node_id w tone"
proof -
  from assms(1) have "r \<in> set (map fst nodes)"
    by (metis map_of_eq_None_iff option.distinct(1) set_map)
  then have keys: "map fst (AList.update r (with_input field v n) nodes) = map fst nodes"
    by (simp add: update_keys)
  have "map (\<lambda>kv. JStr (fst kv)) (AList.update r (with_input field v n) nodes) =
        map JStr (map fst (AList.update r (with_input field v n) nodes))"
    by simp
  also have "\<dots> = map JStr (map fst nodes)" by (simp only: keys)
  finally have iter: "map (\<lambda>kv. JStr (fst kv)) (AList.update r (with_input field v n) nodes) =
        map JStr (map fst nodes)" .
  have iter': "map (\<lambda>kv. JStr (fst kv)) nodes = map JStr (map fst nodes)" by simp
  show ?thesis
    using find_link_after_set [OF assms(1,2,3), of v "map fst nodes"] assms(4)
    by (auto simp: get_prompt_node_id_def iter iter' simp del: map_map)
qed

text \<open>
  Claim C9. In a document where no node's inputs contain \<^verbatim>\<open>'positive'\<close>,
  \<^verbatim>\<open>update_positive_prompt\<close> prints its warning, leaves the object as it was and raises
  nothing; \<^verbatim>\<open>update_negative_prompt\<close> does the same for \<^verbatim>\<open>'negative'\<close>.
\<close>

theorem missing_prompt_node_warns:
  assumes "is_document (workflow_data w)" and "workflow_data w = JObj nodes"
  shows "((\<forall>p \<in> set nodes. \<not> has_input ''positive'' (snd p)) \<longrightarrow>
            update_positive_prompt w prompt = (w, [No_positive_node_found], None))
       \<and> ((\<forall>p \<in> set nodes. \<not> has_input ''negative'' (snd p)) \<longrightarrow>
            update_negative_prompt w prompt = (w, [No_negative_node_found], None))"
proof -
  have doc: "is_document (JObj nodes)" using assms by simp
  have "update_positive_prompt w prompt = (w, [No_positive_node_found], None)"
    if "\<forall>p \<in> set nodes. \<not> has_input ''positive'' (snd p)"
    using find_link_document_none [OF doc that] assms(2)
    by (simp add: update_positive_prompt_def get_prompt_node_id_def)
  moreover
  have "update_negative_prompt w prompt = (w, [No_negative_node_found], None)"
    if "\<forall>p \<in> set nodes. \<not> has_input ''negative'' (snd p)"
    using find_link_document_none [OF doc that] assms(2)
    by (simp add: update_negative_prompt_def get_prompt_node_id_def)
  ultimately show ?thesis by blast
qed

theorem missing_prompt_node_warns_witness:
  "is_document (workflow_data bare_workflow) \<and>
   update_positive_prompt bare_workflow ''a dog'' =
     (bare_workflow, [No_positive_node_found], None) \<and>
   update_negative_prompt example_workflow ''blurry'' =
     (example_workflow, [No_negative_node_found], None)"
proof -
  have bare: "is_document (workflow_data bare_workflow)"
    "workflow_data bare_workflow = JObj [(''4'', example_loader)]"
    "\<forall>p \<in> set [(''4'', example_loader)]. \<not> has_input ''positive'' (snd p)"
    by (simp_all add: bare_workflow_def is_document_def example_loader_def has_input_def)
  have example: "workflow_data example_workflow = JObj example_nodes"
    "\<forall>p \<in> set example_nodes. \<not> has_input ''negative'' (snd p)"
    by (simp_all add: has_input_def example_defs)
  from missing_prompt_node_warns [OF bare(1,2), of "''a dog''", THEN conjunct1, THEN mp, OF bare(3)]
    missing_prompt_node_warns [OF example_is_document example(1), of "''blurry''",
      THEN conjunct2, THEN mp, OF example(2)] bare(1)
  show ?thesis by simp
qed

text \<open>
  Claim C10. When the first node whose inputs contain \<^verbatim>\<open>'positive'\<close> links to an id
  that is no key of the document, or to a node that has no \<^verbatim>\<open>'inputs'\<close> key,
  \<^verbatim>\<open>update_positive_prompt\<close> raises \<^verbatim>\<open>KeyError\<close> from the indexing
  \<^verbatim>\<open>self.workflow_data[positive_node_id]['inputs']\<close>: no warning is printed and nothing
  is skipped. The two example workflows are such documents.
\<close>

theorem dangling_reference_raises:
  assumes "workflow_data w = JObj nodes" and "distinct (map fst nodes)"
    and "nodes = pre @ (k, n) # post"
    and "\<forall>p \<in> set pre. inputs_of (snd p) \<noteq> None \<and> \<not> has_input ''positive'' (snd p)"
    and "inputs_of n = Some inps"
    and "map_of inps ''positive'' = Some (JArr (JStr r # rest))"
    and "map_of nodes r = None \<or>
         (\<exists>attrs. map_of nodes r = Some (JObj attrs) \<and> map_of attrs ''inputs'' = None)"
  shows "update_positive_prompt w prompt = (w, [], Some KeyError)"
proof -
  from find_link_first [OF assms(2,3,4,5,6)] assms(1)
  have "get_prompt_node_id w ''positive'' = Inr (JStr r)"
    by (simp add: get_prompt_node_id_def py_index_def)
  moreover from assms(1,7) have
    "set_input (workflow_data w) (JStr r) ''text'' (JStr prompt) = Inl KeyError"
    by (auto simp: set_input_def)
  ultimately show ?thesis
    by (simp add: update_positive_prompt_def)
qed

theorem dangling_reference_raises_witness:
  "update_positive_prompt dangling_workflow ''a dog'' = (dangling_workflow, [], Some KeyError) \<and>
   update_positive_prompt headless_workflow ''a dog'' = (headless_workflow, [], Some KeyError)"
proof -
  have sampler: "inputs_of example_sampler = Some example_sampler_inputs"
    "map_of example_sampler_inputs ''positive'' = Some (JArr (JStr ''6'' # [JInt 0]))"
    by (simp_all add: example_sampler_def example_sampler_inputs_def)
  have "update_positive_prompt dangling_workflow ''a dog'' = (dangling_workflow, [], Some KeyError)"
    by (rule dangling_reference_raises [of _ "[(''4'', example_loader), (''3'', example_sampler)]"
          "[(''4'', example_loader)]" "''3''" example_sampler "[]" example_sampler_inputs
          "''6''" "[JInt 0]"])
       (simp_all add: dangling_workflow_def sampler has_input_def example_loader_def)
  moreover
  have "update_positive_prompt headless_workflow ''a dog'' = (headless_workflow, [], Some KeyError)"
    by (rule dangling_reference_raises [of _
          "[(''3'', example_sampler), (''6'', JObj [(''class_type'', JStr ''CLIPTextEncode'')])]"
          "[]" "''3''" example_sampler "[(''6'', JObj [(''class_type'', JStr ''CLIPTextEncode'')])]"
          example_sampler_inputs "''6''" "[JInt 0]"])
       (simp_all add: headless_workflow_def sampler)
  ultimately show ?thesis by simp
qed

text \<open>
  Claim C8. In a well-formed document with a node whose inputs contain \<^verbatim>\<open>'positive'\<close>,
  \<^verbatim>\<open>update_positive_prompt(p)\<close> succeeds without a warning, and \<^verbatim>\<open>show_prompts\<close> on the
  updated object prints \<^verbatim>\<open>p\<close> as the positive prompt.
\<close>

theorem positive_prompt_shown:
  assumes "well_formed (workflow_data w)" and "workflow_data w = JObj nodes"
    and "\<exists>p \<in> set nodes. has_input ''positive'' (snd p)"
  shows "\<exists>w' rest e. update_positive_prompt w prompt = (w', [], None) \<and>
           show_prompts w' = (Positive_prompt (JStr prompt) # rest, e)"
proof -
  from assms(1,2) have doc: "is_document (JObj nodes)"
    and pos: "\<forall>p \<in> set nodes. link_ok nodes ''positive'' (snd p)"
    and neg: "\<forall>p \<in> set nodes. link_ok nodes ''negative'' (snd p)"
    by (auto simp: well_formed_def list_all_iff)
  from prompt_node_id_cases [OF doc assms(2) pos] assms(3)
  obtain r where r: "r \<in> set (map fst nodes)" "get_prompt_node_id w ''positive'' = Inr (JStr r)"
    by auto
  from r(1) obtain p where p: "p \<in> set nodes" "fst p = r" by auto
  from document_nodes [OF doc p(1)] p(2) obtain n inps where
    n: "map_of nodes r = Some n" "inputs_of n = Some inps" by auto
  define w' where
    "w' = w\<lparr>workflow_data := JObj (AList.update r (with_input ''text'' (JStr prompt) n) nodes)\<rparr>"
  from r(2) set_input_doc [OF n, of "''text''" "JStr prompt"] assms(2)
  have upd: "update_positive_prompt w prompt = (w', [], None)"
    by (simp add: update_positive_prompt_def w'_def)
  have same: "get_prompt_node_id w' tone = get_prompt_node_id w tone"
    if "tone \<noteq> ''text''" for tone
    unfolding w'_def using n that assms(2) by (rule get_prompt_node_id_after_set)
  from same [of "''positive''"] r(2)
  have pos': "get_prompt_node_id w' ''positive'' = Inr (JStr r)" by simp
  from prompt_node_id_cases [OF doc assms(2) neg]
  obtain x where "get_prompt_node_id w ''negative'' = Inr x"
    by (auto split: if_splits)
  with same [of "''negative''"]
  have neg': "get_prompt_node_id w' ''negative'' = Inr x" by simp
  have txt_val: "input_of w' (JStr r) ''text'' = Inr (JStr prompt)"
    by (simp add: input_of_def w'_def node_inputs_update_same [OF n(2)] update_conv')
  from pos' neg' txt_val have "\<exists>rest e. show_prompts w' = (Positive_prompt (JStr prompt) # rest, e)"
    by (auto simp: show_prompts_def split: sum.splits)
  with upd show ?thesis by blast
qed

theorem positive_prompt_shown_witness:
  "well_formed (workflow_data example_workflow) \<and>
   (\<exists>w' rest e. update_positive_prompt example_workflow ''a dog'' = (w', [], None) \<and>
      show_prompts w' = (Positive_prompt (JStr ''a dog'') # rest, e))"
proof -
  have wf: "well_formed (workflow_data example_workflow)"
    by (simp add: well_formed_def is_document_def link_ok_def example_defs)
  have data: "workflow_data example_workflow = JObj example_nodes"
    by (simp add: example_workflow_def)
  have some: "\<exists>p \<in> set example_nodes. has_input ''positive'' (snd p)"
    by (simp add: has_input_def example_defs)
  from positive_prompt_shown [OF wf data some, of "''a dog''"] wf show ?thesis by simp
qed

section \<open>The updates of steps and seed\<close>

lemma update_middle:
  "k \<notin> set (map fst pre) \<Longrightarrow> AList.update k v (pre @ (k, n) # post) = pre @ (k, v) # post"
  by (induction pre) auto

lemma node_input_with_input:
  "inputs_of n \<noteq> None \<Longrightarrow>
   node_input (with_input key v n) f = (if f = key then Some v else node_input n f)"
  by (auto simp: node_input_def inputs_of_with_input update_conv')

lemma node_attr_with_input:
  "a \<noteq> ''inputs'' \<Longrightarrow> node_attr (with_input key v n) a = node_attr n a"
  by (cases n) (auto simp: update_conv' split: option.splits json.splits)

lemma update_steps_loop_document:
  assumes "distinct (map fst (pre @ todo))" "\<forall>p \<in> set todo. inputs_of (snd p) \<noteq> None"
  shows "update_steps_loop v (map (\<lambda>kv. JStr (fst kv)) todo) (JObj (pre @ todo)) =
         (JObj (pre @ map (\<lambda>(k, n). (k, if has_input ''steps'' n then with_input ''steps'' v n else n))
                       todo), None)"
  using assms
proof (induction todo arbitrary: pre)
  case Nil
  then show ?case by simp
next
  case (Cons p todo)
  obtain k n where p: "p = (k, n)" by (cases p)
  from Cons.prems(2) p obtain inps where inps: "inputs_of n = Some inps" by auto
  from Cons.prems(1) p have look: "map_of (pre @ (k, n) # todo) k = Some n"
    by (intro map_of_is_SomeI) auto
  have inputs: "node_inputs (JObj (pre @ (k, n) # todo)) (JStr k) = Inr (JObj inps)"
    using look inps by (rule node_inputs_doc)
  have found: "k' \<in> set (map fst inps) \<longleftrightarrow> has_input k' n" for k'
    using inps by (simp add: has_input_def)
  from Cons.prems(1) p have fresh: "k \<notin> set (map fst pre)" by auto
  show ?case
  proof (cases "has_input ''steps'' n")
    case True
    let ?n' = "with_input ''steps'' v n"
    have set: "set_input (JObj (pre @ (k, n) # todo)) (JStr k) ''steps'' v =
        Inr (JObj ((pre @ [(k, ?n')]) @ todo))"
      using set_input_doc [OF look inps, of "''steps''" v] update_middle [OF fresh, of ?n' n todo]
      by simp
    have "distinct (map fst ((pre @ [(k, ?n')]) @ todo))"
      using Cons.prems(1) p by simp
    from Cons.IH [OF this] Cons.prems(2)
    have "update_steps_loop v (map (\<lambda>kv. JStr (fst kv)) todo) (JObj ((pre @ [(k, ?n')]) @ todo)) =
        (JObj ((pre @ [(k, ?n')]) @
           map (\<lambda>(k, n). (k, if has_input ''steps'' n then with_input ''steps'' v n else n)) todo),
         None)"
      by simp
    with True inputs found set p show ?thesis by simp
  next
    case False
    have "distinct (map fst ((pre @ [(k, n)]) @ todo))"
      using Cons.prems(1) p by simp
    from Cons.IH [OF this] Cons.prems(2)
    have "update_steps_loop v (map (\<lambda>kv. JStr (fst kv)) todo) (JObj ((pre @ [(k, n)]) @ todo)) =
        (JObj ((pre @ [(k, n)]) @
           map (\<lambda>(k, n). (k, if has_input ''steps'' n then with_input ''steps'' v n else n)) todo),
         None)"
      by simp
    with False inputs found p show ?thesis by simp
  qed
qed

text \<open>
  Claim C3. In a document, \<^verbatim>\<open>update_steps(n)\<close> raises nothing and keeps the node ids in
  their order. A node that had a \<^verbatim>\<open>steps\<close> input has \<^verbatim>\<open>n\<close> there afterwards, with every
  other input and every other attribute as before; a node that had none is unchanged.
\<close>

theorem update_steps_frame:
  assumes "is_document (workflow_data w)" and "workflow_data w = JObj nodes"
  shows "\<exists>nodes'. update_steps w (Some n) = (w\<lparr>workflow_data := JObj nodes'\<rparr>, None) \<and>
           map fst nodes' = map fst nodes \<and>
           (\<forall>k node. map_of nodes k = Some node \<longrightarrow>
              (\<exists>node'. map_of nodes' k = Some node' \<and>
                 (if has_input ''steps'' node
                  then node_input node' ''steps'' = Some (JInt n) \<and>
                       (\<forall>f. f \<noteq> ''steps'' \<longrightarrow> node_input node' f = node_input node f) \<and>
                       (\<forall>a. a \<noteq> ''inputs'' \<longrightarrow> node_attr node' a = node_attr node a)
                  else node' = node)))"
proof -
  let ?f = "\<lambda>node. if has_input ''steps'' node then with_input ''steps'' (JInt n) node else node"
  let ?nodes' = "map (\<lambda>(k, node). (k, ?f node)) nodes"
  from assms have d: "distinct (map fst ([] @ nodes))"
    and i: "\<forall>p \<in> set nodes. inputs_of (snd p) \<noteq> None"
    by (auto simp: is_document_def list_all_iff)
  from update_steps_loop_document [OF d i, of "JInt n"] assms(2)
  have run: "update_steps w (Some n) = (w\<lparr>workflow_data := JObj ?nodes'\<rparr>, None)"
    by (simp add: update_steps_def)
  have keys: "map fst ?nodes' = map fst nodes" by (simp add: case_prod_unfold comp_def)
  have each: "\<exists>node'. map_of ?nodes' k = Some node' \<and>
                 (if has_input ''steps'' node
                  then node_input node' ''steps'' = Some (JInt n) \<and>
                       (\<forall>f. f \<noteq> ''steps'' \<longrightarrow> node_input node' f = node_input node f) \<and>
                       (\<forall>a. a \<noteq> ''inputs'' \<longrightarrow> node_attr node' a = node_attr node a)
                  else node' = node)"
    if "map_of nodes k = Some node" for k node
  proof -
    from that have "map_of ?nodes' k = Some (?f node)"
      by (simp add: map_of_map)
    moreover have "inputs_of node \<noteq> None" if "has_input ''steps'' node"
      using that by (auto simp: has_input_def split: option.splits)
    ultimately show ?thesis
      by (auto simp: node_input_with_input node_attr_with_input)
  qed
  from run keys each show ?thesis by blast
qed

theorem update_steps_frame_witness:
  "is_document (workflow_data example_workflow) \<and>
   (\<exists>nodes'. update_steps example_workflow (Some 30) =
        (example_workflow\<lparr>workflow_data := JObj nodes'\<rparr>, None) \<and>
      map fst nodes' = map fst example_nodes \<and>
      (\<exists>node'. map_of nodes' ''3'' = Some node' \<and> node_input node' ''steps'' = Some (JInt 30) \<and>
         node_input node' ''seed'' = Some (JInt 5)) \<and>
      map_of nodes' ''6'' = Some example_encode)"
proof -
  have data: "workflow_data example_workflow = JObj example_nodes"
    by (simp add: example_workflow_def)
  have sampler: "map_of example_nodes ''3'' = Some example_sampler"
    "has_input ''steps'' example_sampler"
    "node_input example_sampler ''seed'' = Some (JInt 5)"
    by (simp_all add: example_nodes_def has_input_def node_input_def example_sampler_def
        example_sampler_inputs_def)
  have encode: "map_of example_nodes ''6'' = Some example_encode"
    "\<not> has_input ''steps'' example_encode"
    by (simp_all add: example_nodes_def has_input_def example_encode_def)
  from update_steps_frame [OF example_is_document data, of 30]
  obtain nodes' where r: "update_steps example_workflow (Some 30) =
        (example_workflow\<lparr>workflow_data := JObj nodes'\<rparr>, None)"
    "map fst nodes' = map fst example_nodes"
    "\<forall>k node. map_of example_nodes k = Some node \<longrightarrow>
              (\<exists>node'. map_of nodes' k = Some node' \<and>
                 (if has_input ''steps'' node
                  then node_input node' ''steps'' = Some (JInt 30) \<and>
                       (\<forall>f. f \<noteq> ''steps'' \<longrightarrow> node_input node' f = node_input node f) \<and>
                       (\<forall>a. a \<noteq> ''inputs'' \<longrightarrow> node_attr node' a = node_attr node a)
                  else node' = node))"
    by blast
  from r(3) [rule_format, OF sampler(1)] sampler(2,3)
  have s: "\<exists>node'. map_of nodes' ''3'' = Some node' \<and> node_input node' ''steps'' = Some (JInt 30) \<and>
         node_input node' ''seed'' = Some (JInt 5)"
    by auto
  from r(3) [rule_format, OF encode(1)] encode(2)
  have e: "map_of nodes' ''6'' = Some example_encode" by auto
  from example_is_document r(1,2) s e show ?thesis by blast
qed

lemma randint_range:
  "a \<le> b \<Longrightarrow> a \<le> fst (randint a b g) \<and> fst (randint a b g) \<le> b"
proof -
  assume ab: "a \<le> b"
  have "int (raw g (pos g) mod nat (b - a + 1)) < int (nat (b - a + 1))"
    using ab by (intro iffD2 [OF of_nat_less_iff] mod_less_divisor) simp
  with ab show ?thesis by (simp add: randint_def)
qed

lemma seeds_keys:
  "list_all2 (\<lambda>p p'. fst p' = fst p \<and> R (snd p) (snd p')) xs ys \<Longrightarrow> map fst ys = map fst xs"
  by (induction rule: list_all2_induct) auto

lemma seeds_map_of:
  "list_all2 (\<lambda>p p'. fst p' = fst p \<and> R (snd p) (snd p')) xs ys \<Longrightarrow> map_of xs k = Some v \<Longrightarrow>
   \<exists>v'. map_of ys k = Some v' \<and> R v v'"
  by (induction rule: list_all2_induct) (auto split: if_splits)

lemma update_seed_loop_document:
  assumes "distinct (map fst (pre @ todo))" "\<forall>p \<in> set todo. inputs_of (snd p) \<noteq> None"
  shows "\<exists>todo' g'.
           update_seed_loop (- 1) (map (\<lambda>kv. JStr (fst kv)) todo) (JObj (pre @ todo)) g =
             (JObj (pre @ todo'), g', None) \<and>
           list_all2 (\<lambda>p p'. fst p' = fst p \<and>
                (if has_input ''seed'' (snd p)
                 then \<exists>r. 0 \<le> r \<and> r \<le> 1000000 \<and> snd p' = with_input ''seed'' (JInt r) (snd p)
                 else snd p' = snd p)) todo todo'"
  using assms
proof (induction todo arbitrary: pre g)
  case Nil
  then show ?case by simp
next
  case (Cons p todo)
  let ?R = "\<lambda>p p'. fst p' = fst p \<and>
                (if has_input ''seed'' (snd p)
                 then \<exists>r. 0 \<le> r \<and> r \<le> 1000000 \<and> snd p' = with_input ''seed'' (JInt r) (snd p)
                 else snd p' = snd p)"
  obtain k n where p: "p = (k, n)" by (cases p)
  from Cons.prems(2) p obtain inps where inps: "inputs_of n = Some inps" by auto
  from Cons.prems(1) p have look: "map_of (pre @ (k, n) # todo) k = Some n"
    by (intro map_of_is_SomeI) auto
  have inputs: "node_inputs (JObj (pre @ (k, n) # todo)) (JStr k) = Inr (JObj inps)"
    using look inps by (rule node_inputs_doc)
  have found: "k' \<in> set (map fst inps) \<longleftrightarrow> has_input k' n" for k'
    using inps by (simp add: has_input_def)
  from Cons.prems(1) p have fresh: "k \<notin> set (map fst pre)" by auto
  show ?case
  proof (cases "has_input ''seed'' n")
    case True
    obtain r g1 where draw: "randint 0 1000000 g = (r, g1)" by (cases "randint 0 1000000 g")
    from randint_range [of 0 1000000 g] draw have r: "0 \<le> r" "r \<le> 1000000" by simp_all
    let ?n' = "with_input ''seed'' (JInt r) n"
    have set: "set_input (JObj (pre @ (k, n) # todo)) (JStr k) ''seed'' (JInt r) =
        Inr (JObj ((pre @ [(k, ?n')]) @ todo))"
      using set_input_doc [OF look inps, of "''seed''" "JInt r"]
        update_middle [OF fresh, of ?n' n todo]
      by simp
    have "distinct (map fst ((pre @ [(k, ?n')]) @ todo))"
      using Cons.prems(1) p by simp
    from Cons.IH [OF this, of g1] Cons.prems(2)
    obtain todo' g' where rest:
      "update_seed_loop (- 1) (map (\<lambda>kv. JStr (fst kv)) todo) (JObj ((pre @ [(k, ?n')]) @ todo)) g1 =
         (JObj ((pre @ [(k, ?n')]) @ todo'), g', None)"
      "list_all2 ?R todo todo'"
      by auto
    from True inputs found set draw rest(1) p
    have run: "update_seed_loop (- 1) (map (\<lambda>kv. JStr (fst kv)) (p # todo)) (JObj (pre @ p # todo)) g =
        (JObj (pre @ (k, ?n') # todo'), g', None)"
      by simp
    from True r rest(2) p have "list_all2 ?R (p # todo) ((k, ?n') # todo')" by auto
    with run show ?thesis by blast
  next
    case False
    have "distinct (map fst ((pre @ [(k, n)]) @ todo))"
      using Cons.prems(1) p by simp
    from Cons.IH [OF this, of g] Cons.prems(2)
    obtain todo' g' where rest:
      "update_seed_loop (- 1) (map (\<lambda>kv. JStr (fst kv)) todo) (JObj ((pre @ [(k, n)]) @ todo)) g =
         (JObj ((pre @ [(k, n)]) @ todo'), g', None)"
      "list_all2 ?R todo todo'"
      by auto
    from False inputs found rest(1) p
    have run: "update_seed_loop (- 1) (map (\<lambda>kv. JStr (fst kv)) (p # todo)) (JObj (pre @ p # todo)) g =
        (JObj (pre @ (k, n) # todo'), g', None)"
      by simp
    from False rest(2) p have "list_all2 ?R (p # todo) ((k, n) # todo')" by auto
    with run show ?thesis by blast
  qed
qed

text \<open>
  Claim C2, as the code has it. In a document, \<^verbatim>\<open>update_seed(-1)\<close> raises nothing, keeps
  the node ids, and gives every node that had a \<^verbatim>\<open>seed\<close> input an integer \<open>r\<close> with
  \<open>0 \<le> r \<le> 1000000\<close>: the range of \<^verbatim>\<open>random.randint(0, 1000000)\<close> includes both ends.
\<close>

theorem update_seed_random_range:
  assumes "is_document (workflow_data w)" and "workflow_data w = JObj nodes"
  shows "\<exists>nodes' g'. update_seed w (- 1) g = (w\<lparr>workflow_data := JObj nodes'\<rparr>, g', None) \<and>
           map fst nodes' = map fst nodes \<and>
           (\<forall>k node. map_of nodes k = Some node \<and> has_input ''seed'' node \<longrightarrow>
              (\<exists>node' r. map_of nodes' k = Some node' \<and>
                 node_input node' ''seed'' = Some (JInt r) \<and> 0 \<le> r \<and> r \<le> 1000000))"
proof -
  let ?S = "\<lambda>n n'. if has_input ''seed'' n
                 then \<exists>r. 0 \<le> r \<and> r \<le> 1000000 \<and> n' = with_input ''seed'' (JInt r) n
                 else n' = n"
  from assms have d: "distinct (map fst ([] @ nodes))"
    and i: "\<forall>p \<in> set nodes. inputs_of (snd p) \<noteq> None"
    by (auto simp: is_document_def list_all_iff)
  from update_seed_loop_document [OF d i, of g]
  obtain nodes' g' where loop:
    "update_seed_loop (- 1) (map (\<lambda>kv. JStr (fst kv)) nodes) (JObj nodes) g =
       (JObj nodes', g', None)"
    "list_all2 (\<lambda>p p'. fst p' = fst p \<and> ?S (snd p) (snd p')) nodes nodes'"
    by auto
  from loop(1) assms(2)
  have run: "update_seed w (- 1) g = (w\<lparr>workflow_data := JObj nodes'\<rparr>, g', None)"
    by (simp add: update_seed_def)
  from loop(2) have keys: "map fst nodes' = map fst nodes" by (rule seeds_keys)
  have each: "\<exists>node' r. map_of nodes' k = Some node' \<and>
                 node_input node' ''seed'' = Some (JInt r) \<and> 0 \<le> r \<and> r \<le> 1000000"
    if "map_of nodes k = Some node \<and> has_input ''seed'' node" for k node
  proof -
    from that have node: "map_of nodes k = Some node" "has_input ''seed'' node" by simp_all
    from seeds_map_of [OF loop(2) node(1)] node(2)
    obtain node' r where n': "map_of nodes' k = Some node'" "0 \<le> r" "r \<le> 1000000"
      "node' = with_input ''seed'' (JInt r) node"
      by auto
    from node(2) have "inputs_of node \<noteq> None"
      by (auto simp: has_input_def split: option.splits)
    with n' show ?thesis by (auto simp: node_input_with_input)
  qed
  from run keys each show ?thesis by blast
qed

theorem update_seed_random_range_witness:
  "is_document (workflow_data seed_workflow) \<and>
   (\<exists>nodes' g' node' r.
      update_seed seed_workflow (- 1) million_draws =
        (seed_workflow\<lparr>workflow_data := JObj nodes'\<rparr>, g', None) \<and>
      map_of nodes' ''3'' = Some node' \<and>
      node_input node' ''seed'' = Some (JInt r) \<and> 0 \<le> r \<and> r \<le> 1000000)"
proof -
  have doc: "is_document (workflow_data seed_workflow)"
    by (simp add: seed_workflow_def is_document_def)
  have data: "workflow_data seed_workflow =
      JObj [(''3'', JObj [(''inputs'', JObj [(''seed'', JInt 5)])])]"
    by (simp add: seed_workflow_def)
  have node: "map_of [(''3'', JObj [(''inputs'', JObj [(''seed'', JInt 5)])])] ''3'' =
        Some (JObj [(''inputs'', JObj [(''seed'', JInt 5)])]) \<and>
      has_input ''seed'' (JObj [(''inputs'', JObj [(''seed'', JInt 5)])])"
    by (simp add: has_input_def)
  from update_seed_random_range [OF doc data, of million_draws]
  obtain nodes' g' where r:
    "update_seed seed_workflow (- 1) million_draws =
       (seed_workflow\<lparr>workflow_data := JObj nodes'\<rparr>, g', None)"
    "\<forall>k node. map_of [(''3'', JObj [(''inputs'', JObj [(''seed'', JInt 5)])])] k = Some node \<and>
        has_input ''seed'' node \<longrightarrow>
        (\<exists>node' r. map_of nodes' k = Some node' \<and>
           node_input node' ''seed'' = Some (JInt r) \<and> 0 \<le> r \<and> r \<le> 1000000)"
    by blast
  from r(2) [rule_format, OF node] r(1) doc show ?thesis by blast
qed

text \<open>
  The upper end is reached: with the draw 1000000 the seed assigned is 1000000, which is
  not below 1000000, so the half-open range of claim C2 does not hold.
\<close>

theorem update_seed_million:
  "update_seed seed_workflow (- 1) million_draws =
     (seed_workflow\<lparr>workflow_data :=
        JObj [(''3'', JObj [(''inputs'', JObj [(''seed'', JInt 1000000)])])]\<rparr>,
      million_draws\<lparr>pos := 1\<rparr>, None) \<and>
   \<not> (1000000 :: int) < 1000000"
  by (simp add: update_seed_def seed_workflow_def million_draws_def node_inputs_def
      set_input_def randint_def)

section \<open>Printing and parsing\<close>

lemma digit_char_less_10:
  assumes "d < 10"
  shows "is_digit (digit_char d)" "hex_val (digit_char d) = Some d"
    "digit_char d = CHR ''0'' \<longleftrightarrow> d = 0"
proof -
  from assms have "d = 0 \<or> d = 1 \<or> d = 2 \<or> d = 3 \<or> d = 4 \<or> d = 5 \<or> d = 6 \<or> d = 7 \<or>
    d = 8 \<or> d = 9"
    by arith
  then show "is_digit (digit_char d)" "hex_val (digit_char d) = Some d"
    "digit_char d = CHR ''0'' \<longleftrightarrow> d = 0"
    by (elim disjE; simp add: digit_char_def is_digit_def hex_val_def upt_rec)+
qed

lemma hex_val_digit_char:
  assumes "d < 16"
  shows "hex_val (digit_char d) = Some d"
proof -
  from assms have "d = 0 \<or> d = 1 \<or> d = 2 \<or> d = 3 \<or> d = 4 \<or> d = 5 \<or> d = 6 \<or> d = 7 \<or>
    d = 8 \<or> d = 9 \<or> d = 10 \<or> d = 11 \<or> d = 12 \<or> d = 13 \<or> d = 14 \<or> d = 15"
    by arith
  then show ?thesis
    by (elim disjE; simp add: digit_char_def hex_val_def upt_rec)
qed

lemma is_digit_num_char: "is_digit c \<Longrightarrow> is_num_char c"
  by (auto simp: is_digit_def is_num_char_def)

lemma nat_of_digits_snoc:
  "nat_of_digits (ds @ [c]) = 10 * nat_of_digits ds + digit_val c"
  by (simp add: nat_of_digits_def)

lemma show_nat_digits: "list_all is_digit (show_nat n)"
  by (induction n rule: show_nat.induct) (subst show_nat.simps, simp add: digit_char_less_10)

lemma show_nat_nonempty: "show_nat n \<noteq> []"
  by (subst show_nat.simps) simp

lemma show_nat_value: "nat_of_digits (show_nat n) = n"
proof (induction n rule: show_nat.induct)
  case (1 n)
  show ?case
  proof (cases "n < 10")
    case True
    then show ?thesis
      by (subst show_nat.simps) (simp add: nat_of_digits_def digit_val_def digit_char_less_10)
  next
    case False
    with 1 show ?thesis
      by (subst show_nat.simps) (simp add: nat_of_digits_snoc digit_val_def digit_char_less_10)
  qed
qed

lemma show_nat_leading: "hd (show_nat n) = CHR ''0'' \<Longrightarrow> n = 0"
proof (induction n rule: show_nat.induct)
  case (1 n)
  show ?case
  proof (cases "n < 10")
    case True
    with 1(2) show ?thesis
      by (subst (asm) show_nat.simps) (simp add: digit_char_less_10)
  next
    case False
    with 1(2) have "hd (show_nat (n div 10)) = CHR ''0''"
      by (subst (asm) show_nat.simps) (simp add: show_nat_nonempty)
    with 1(1) False have "n div 10 = 0" by simp
    with False show ?thesis by simp
  qed
qed

lemma show_nat_0: "show_nat 0 = ''0''"
  by (subst show_nat.simps) (simp add: digit_char_def)

lemma number_token_digits:
  assumes "list_all is_digit ds" "ds \<noteq> []" "hd ds = CHR ''0'' \<longrightarrow> length ds = 1"
  shows "number_token ds = Some (JInt (int (nat_of_digits ds)))"
    "number_token (CHR ''-'' # ds) = Some (JInt (- int (nat_of_digits ds)))"
proof -
  from assms(1) have all: "takeWhile is_digit ds = ds" "dropWhile is_digit ds = []"
    by (simp_all add: list_all_iff)
  from assms(1,2) have "is_digit (hd ds)" by (cases ds) simp_all
  then have "hd ds \<noteq> CHR ''-''" by (auto simp: is_digit_def)
  with assms(2) have "take 1 ds \<noteq> ''-''" by (cases ds) auto
  then have pos: "(take 1 ds = ''-'') = False" by simp
  from assms(2,3) show "number_token ds = Some (JInt (int (nat_of_digits ds)))"
    unfolding number_token_def Let_def pos by (simp add: all)
  from assms(2,3) show
    "number_token (CHR ''-'' # ds) = Some (JInt (- int (nat_of_digits ds)))"
    unfolding number_token_def Let_def by (simp add: all)
qed

lemma show_nat_length_1: "hd (show_nat n) = CHR ''0'' \<longrightarrow> length (show_nat n) = 1"
  using show_nat_leading [of n] show_nat_0 by auto

lemma number_token_show_int: "number_token (show_int i) = Some (JInt i)"
  using number_token_digits [OF show_nat_digits show_nat_nonempty show_nat_length_1]
  by (simp add: show_int_def show_nat_value)

lemma show_int_num_chars: "list_all is_num_char (show_int i)"
proof -
  have digits: "list_all is_num_char (show_nat n)" for n
    using show_nat_digits [of n] by (auto simp: list_all_iff intro: is_digit_num_char)
  have minus: "is_num_char CHR ''-''" by (simp add: is_num_char_def)
  from digits minus show ?thesis by (simp add: show_int_def)
qed

lemma show_int_nonempty: "show_int i \<noteq> []"
  by (simp add: show_int_def show_nat_nonempty)


lemma parse_string_raw:
  assumes "c \<noteq> CHR 0x22" "c \<noteq> CHR 0x5C" "32 \<le> (of_char c :: nat)"
  shows "parse_string (c # t) = map_option (\<lambda>(s, rest). (c # s, rest)) (parse_string t)"
  using assms by simp

lemma parse_string_short:
  assumes "unescape e = Some c" "e \<noteq> CHR ''u''"
  shows "parse_string (CHR 0x5C # e # t) =
         map_option (\<lambda>(s, rest). (c # s, rest)) (parse_string t)"
  using assms by simp

lemma parse_string_hex:
  "parse_string (CHR 0x5C # CHR ''u'' # CHR ''0'' # CHR ''0'' #
       digit_char (of_char c div 16) # digit_char (of_char c mod 16) # t) =
   map_option (\<lambda>(s, rest). (c # s, rest)) (parse_string t)"
proof -
  have less: "(of_char c :: nat) < 256" by simp
  from nat_of_char_less_256 [of c] have "(of_char c :: nat) div 16 < 16" by arith
  then have hi: "hex_val (digit_char (of_char c div 16)) = Some (of_char c div 16)"
    by (rule hex_val_digit_char)
  have lo: "hex_val (digit_char (of_char c mod 16)) = Some (of_char c mod 16)"
    by (intro hex_val_digit_char) simp
  have zero: "hex_val CHR ''0'' = Some 0" by (simp add: hex_val_def upt_rec)
  have "hex4 CHR ''0'' CHR ''0'' (digit_char (of_char c div 16)) (digit_char (of_char c mod 16)) =
      Some (of_char c)"
    by (simp add: hex4_def hi lo zero)
  with less show ?thesis by simp
qed

lemma parse_string_escape:
  "parse_string (escape_char c @ t) =
   map_option (\<lambda>(s, rest). (c # s, rest)) (parse_string t)"
proof -
  consider "c = CHR 0x22" | "c = CHR 0x5C" | "c = CHR 0x0A" | "c = CHR 0x0D" | "c = CHR 0x09"
    | "c = CHR 0x08" | "c = CHR 0x0C"
    | "c \<notin> {CHR 0x22, CHR 0x5C, CHR 0x0A, CHR 0x0D, CHR 0x09, CHR 0x08, CHR 0x0C}"
        "32 \<le> (of_char c :: nat) \<and> (of_char c :: nat) \<le> 126"
    | "c \<notin> {CHR 0x22, CHR 0x5C, CHR 0x0A, CHR 0x0D, CHR 0x09, CHR 0x08, CHR 0x0C}"
        "\<not> (32 \<le> (of_char c :: nat) \<and> (of_char c :: nat) \<le> 126)"
    by blast
  then show ?thesis
  proof cases
    case 8
    then have "escape_char c = [c]" by (simp add: escape_char_def)
    with 8 parse_string_raw [of c t] show ?thesis by simp
  next
    case 9
    then have "escape_char c = [CHR 0x5C, CHR ''u'', CHR ''0'', CHR ''0'',
        digit_char (of_char c div 16), digit_char (of_char c mod 16)]"
      by (simp add: escape_char_def)
    with parse_string_hex [of c t] show ?thesis by simp
  qed (simp_all add: escape_char_def unescape_def)
qed

lemma parse_string_dump:
  "parse_string (concat (map escape_char s) @ CHR 0x22 # rest) = Some (s, rest)"
  by (induction s) (simp_all add: parse_string_escape del: parse_string.simps(2), simp)


lemma munch:
  assumes "list_all P xs" "ys = [] \<or> \<not> P (hd ys)"
  shows "takeWhile P (xs @ ys) = xs" "dropWhile P (xs @ ys) = ys"
proof -
  from assms(2) have "takeWhile P ys = []" "dropWhile P ys = ys"
    by (cases ys; auto)+
  with assms(1) show "takeWhile P (xs @ ys) = xs" "dropWhile P (xs @ ys) = ys"
    by (simp_all add: list_all_iff takeWhile_append2 dropWhile_append2)
qed

lemma num_char_not_start:
  assumes "is_num_char c"
  shows "c \<noteq> CHR 0x22" "c \<noteq> CHR ''{''" "c \<noteq> CHR ''[''" "c \<noteq> CHR ''n''" "c \<noteq> CHR ''t''"
    "c \<noteq> CHR ''f''" "\<not> is_ws c" "c \<noteq> CHR '']''" "c \<noteq> CHR ''}''"
  using assms by (auto simp: is_num_char_def is_ws_def)

lemma parse_value_number:
  assumes "tok \<noteq> []" "list_all is_num_char tok" "number_token tok = Some v"
    "rest = [] \<or> \<not> is_num_char (hd rest)"
  shows "parse_value (Suc f) (tok @ rest) = Some (v, rest)"
proof -
  from assms(1) obtain c cs where tok: "tok = c # cs" by (cases tok) auto
  with assms(2) have c: "is_num_char c" by simp
  note munch [OF assms(2) assms(4)]
  with assms(3) num_char_not_start [OF c] tok show ?thesis
    by (simp del: takeWhile.simps dropWhile.simps)
qed

lemma dumps_start:
  assumes "in_memory d"
  shows "\<exists>c cs. dumps d = c # cs \<and> \<not> is_ws c \<and> c \<noteq> CHR '']'' \<and> c \<noteq> CHR ''}''"
proof (cases d)
  case (JInt i)
  from show_int_nonempty [of i] obtain c cs where "show_int i = c # cs"
    by (cases "show_int i") auto
  with show_int_num_chars [of i] JInt show ?thesis
    by (auto dest: num_char_not_start)
next
  case (JFloat lit)
  with assms have lit: "list_all is_num_char lit" "number_token lit = Some (JFloat lit)"
    by simp_all
  from lit(2) have "lit \<noteq> []" by (auto simp: number_token_def Let_def)
  then obtain c cs where "lit = c # cs" by (cases lit) auto
  with lit(1) JFloat show ?thesis
    by (auto dest: num_char_not_start)
qed (auto simp: is_ws_def dump_string_def)

lemma skip_ws_dumps:
  assumes "in_memory d"
  shows "skip_ws (dumps d @ r) = dumps d @ r" "take 1 (dumps d @ r) \<noteq> '']''"
    "take 1 (dumps d @ r) \<noteq> ''}''"
  using dumps_start [OF assms] by (auto simp: skip_ws_def)

lemma skip_ws_sep:
  "skip_ws (CHR '','' # r) = CHR '','' # r" "skip_ws (CHR '']'' # r) = CHR '']'' # r"
  "skip_ws (CHR ''}'' # r) = CHR ''}'' # r" "skip_ws (CHR '':'' # r) = CHR '':'' # r"
  "skip_ws (CHR '' '' # r) = skip_ws r"
  by (simp_all add: skip_ws_def is_ws_def)

lemma join_Cons: "ys \<noteq> [] \<Longrightarrow> join (x # ys) = x @ '', '' @ join ys"
  by (cases ys) simp_all

lemma roundtrip_elements:
  assumes "\<And>x f rest. x \<in> set xs \<Longrightarrow> length (dumps x) < f \<Longrightarrow>
      rest = [] \<or> \<not> is_num_char (hd rest) \<Longrightarrow> parse_value f (dumps x @ rest) = Some (x, rest)"
    and "\<forall>x \<in> set xs. in_memory x" and "xs \<noteq> []"
    and "length (join (map dumps xs)) + 1 < f"
  shows "parse_elements f (join (map dumps xs) @ CHR '']'' # rest) = Some (xs, rest)"
  using assms
proof (induction xs arbitrary: f)
  case Nil
  then show ?case by simp
next
  case (Cons x xs)
  from Cons.prems(4) obtain f' where f: "f = Suc f'" by (cases f) auto
  show ?case
  proof (cases "xs = []")
    case True
    with Cons.prems(4) f have "length (dumps x) < f'" by simp
    then have "parse_value f' (dumps x @ CHR '']'' # rest) = Some (x, CHR '']'' # rest)"
      by (intro Cons.prems(1)) (simp_all add: is_num_char_def)
    with True f show ?thesis by (simp add: skip_ws_sep)
  next
    case False
    then obtain y ys where xs: "xs = y # ys" by (cases xs) auto
    let ?tail = "join (map dumps xs) @ CHR '']'' # rest"
    from False have printed: "join (map dumps (x # xs)) = dumps x @ '', '' @ join (map dumps xs)"
      by (simp add: join_Cons)
    with Cons.prems(4) f have len: "length (dumps x) < f'" "length (join (map dumps xs)) + 1 < f'"
      by simp_all
    have first: "parse_value f' (dumps x @ CHR '','' # CHR '' '' # ?tail) =
        Some (x, CHR '','' # CHR '' '' # ?tail)"
      using len(1) by (intro Cons.prems(1)) (simp_all add: is_num_char_def)
    have rest_ok: "parse_elements f' ?tail = Some (xs, rest)"
      using Cons.prems(1,2) False len(2) by (intro Cons.IH) auto
    from Cons.prems(2) xs have "in_memory y" by simp
    from skip_ws_dumps(1) [OF this] xs have skip: "skip_ws ?tail = ?tail"
      by (cases ys) simp_all
    from first rest_ok skip f printed show ?thesis
      by (simp add: skip_ws_sep)
  qed
qed


lemma update_new: "k \<notin> set (map fst al) \<Longrightarrow> AList.update k v al = al @ [(k, v)]"
  by (induction al) auto

lemma dict_distinct_acc:
  "distinct (map fst (acc @ ps)) \<Longrightarrow>
   foldl (\<lambda>d kv. AList.update (fst kv) (snd kv) d) acc ps = acc @ ps"
proof (induction ps arbitrary: acc)
  case Nil
  then show ?case by simp
next
  case (Cons p ps)
  from Cons.prems have "fst p \<notin> set (map fst acc)" by auto
  then have "AList.update (fst p) (snd p) acc = acc @ [p]"
    by (simp add: update_new)
  moreover from Cons.prems have "distinct (map fst ((acc @ [p]) @ ps))" by simp
  ultimately show ?case using Cons.IH [of "acc @ [p]"] by simp
qed

lemma dict_distinct: "distinct (map fst ps) \<Longrightarrow> dict ps = ps"
  using dict_distinct_acc [of "[]" ps] by (simp add: dict_def)

lemma skip_ws_dump_string: "skip_ws (dump_string k @ r) = dump_string k @ r"
  by (simp add: skip_ws_def dump_string_def is_ws_def)

lemma roundtrip_members:
  assumes "\<And>kv f rest. kv \<in> set kvs \<Longrightarrow> length (dumps (snd kv)) < f \<Longrightarrow>
      rest = [] \<or> \<not> is_num_char (hd rest) \<Longrightarrow>
      parse_value f (dumps (snd kv) @ rest) = Some (snd kv, rest)"
    and "\<forall>kv \<in> set kvs. in_memory (snd kv)" and "kvs \<noteq> []"
    and "length (join (map (\<lambda>kv. dump_string (fst kv) @ '': '' @ dumps (snd kv)) kvs)) + 1 < f"
  shows "parse_members f
           (join (map (\<lambda>kv. dump_string (fst kv) @ '': '' @ dumps (snd kv)) kvs) @ CHR ''}'' # rest) =
         Some (kvs, rest)"
  using assms
proof (induction kvs arbitrary: f)
  case Nil
  then show ?case by simp
next
  case (Cons p kvs)
  let ?member = "\<lambda>kv. dump_string (fst kv) @ '': '' @ dumps (snd kv)"
  obtain k v where p: "p = (k, v)" by (cases p)
  from Cons.prems(4) obtain f' where f: "f = Suc f'" by (cases f) auto
  from Cons.prems(2) p have v: "in_memory v" by simp
  have key: "parse_string (drop 1 (dump_string k @ CHR '':'' # CHR '' '' # dumps v @ R)) =
      Some (k, CHR '':'' # CHR '' '' # dumps v @ R)" for R
    using parse_string_dump [of k "CHR '':'' # CHR '' '' # dumps v @ R"]
    by (simp add: dump_string_def)
  have quote: "take 1 (dump_string k @ R) = [CHR 0x22]" for R
    by (simp add: dump_string_def)
  show ?case
  proof (cases "kvs = []")
    case True
    with Cons.prems(4) f p have "length (dumps v) < f'" by simp
    with p have "parse_value f' (dumps v @ CHR ''}'' # rest) = Some (v, CHR ''}'' # rest)"
      using Cons.prems(1) [of p f' "CHR ''}'' # rest"] by (simp add: is_num_char_def)
    with True f p key quote skip_ws_dumps(1) [OF v] show ?thesis
      by (simp add: skip_ws_sep del: dump_string_def)
  next
    case False
    then obtain q qs where kvs: "kvs = q # qs" by (cases kvs) auto
    let ?tail = "join (map ?member kvs) @ CHR ''}'' # rest"
    from False p have printed: "join (map ?member (p # kvs)) =
        dump_string k @ '': '' @ dumps v @ '', '' @ join (map ?member kvs)"
      by (simp add: join_Cons)
    with Cons.prems(4) f have len: "length (dumps v) < f'"
      "length (join (map ?member kvs)) + 1 < f'"
      by simp_all
    from len(1) p have first: "parse_value f' (dumps v @ CHR '','' # CHR '' '' # ?tail) =
        Some (v, CHR '','' # CHR '' '' # ?tail)"
      using Cons.prems(1) [of p f' "CHR '','' # CHR '' '' # ?tail"] by (simp add: is_num_char_def)
    have rest_ok: "parse_members f' ?tail = Some (kvs, rest)"
      using Cons.prems(1,2) False len(2) by (intro Cons.IH) auto
    from kvs have skip: "skip_ws ?tail = ?tail"
      using skip_ws_dump_string by (cases qs) simp_all
    from first rest_ok skip f printed p key quote skip_ws_dumps(1) [OF v] show ?thesis
      by (simp add: skip_ws_sep)
  qed
qed

lemma roundtrip_value:
  "in_memory d \<Longrightarrow> length (dumps d) < f \<Longrightarrow> rest = [] \<or> \<not> is_num_char (hd rest) \<Longrightarrow>
   parse_value f (dumps d @ rest) = Some (d, rest)"
proof (induction d arbitrary: f rest)
  case JNull
  then obtain f' where "f = Suc f'" by (cases f) auto
  then show ?case by simp
next
  case (JBool b)
  then obtain f' where "f = Suc f'" by (cases f) auto
  then show ?case by simp
next
  case (JInt i)
  then obtain f' where "f = Suc f'" by (cases f) auto
  with JInt(3) show ?case
    using parse_value_number [OF show_int_nonempty show_int_num_chars number_token_show_int]
    by simp
next
  case (JFloat lit)
  then obtain f' where f: "f = Suc f'" by (cases f) auto
  from JFloat(1) have lit: "list_all is_num_char lit" "number_token lit = Some (JFloat lit)"
    by simp_all
  from lit(2) have "lit \<noteq> []" by (auto simp: number_token_def Let_def)
  from parse_value_number [OF this lit JFloat(3)] f show ?case by simp
next
  case (JStr s)
  then obtain f' where "f = Suc f'" by (cases f) auto
  with parse_string_dump [of s rest] show ?case
    by (simp add: dump_string_def)
next
  case (JArr xs)
  from JArr(3) obtain f' where f: "f = Suc f'" by (cases f) auto
  show ?case
  proof (cases "xs = []")
    case True
    with f show ?thesis by (simp add: skip_ws_sep)
  next
    case False
    then obtain y ys where xs: "xs = y # ys" by (cases xs) auto
    let ?tail = "join (map dumps xs) @ CHR '']'' # rest"
    from JArr(2) xs have "in_memory y" by simp
    from skip_ws_dumps [OF this] xs have skip: "skip_ws ?tail = ?tail" "take 1 ?tail \<noteq> '']''"
      by (cases ys; simp)+
    from JArr(3) f have "length (join (map dumps xs)) + 1 < f'" by simp
    with JArr(1,2) False have "parse_elements f' ?tail = Some (xs, rest)"
      by (intro roundtrip_elements) auto
    with f skip show ?thesis by simp
  qed
next
  case (JObj kvs)
  let ?member = "\<lambda>kv. dump_string (fst kv) @ '': '' @ dumps (snd kv)"
  from JObj(3) obtain f' where f: "f = Suc f'" by (cases f) auto
  from JObj(2) have keys: "distinct (map fst kvs)" by simp
  show ?case
  proof (cases "kvs = []")
    case True
    with f show ?thesis by (simp add: skip_ws_sep)
  next
    case False
    then obtain q qs where kvs: "kvs = q # qs" by (cases kvs) auto
    let ?tail = "join (map ?member kvs) @ CHR ''}'' # rest"
    from kvs have skip: "skip_ws ?tail = ?tail" "take 1 ?tail \<noteq> ''}''"
      using skip_ws_dump_string by (cases qs; simp add: dump_string_def)+
    from JObj(3) f have len: "length (join (map ?member kvs)) + 1 < f'" by simp
    have each: "parse_value g (dumps (snd kv) @ r) = Some (snd kv, r)"
      if "kv \<in> set kvs" "length (dumps (snd kv)) < g" "r = [] \<or> \<not> is_num_char (hd r)"
      for kv g r
      using that JObj(2) by (intro JObj(1) [of kv]) (auto simp: snds.simps)
    from JObj(2) have "\<forall>kv \<in> set kvs. in_memory (snd kv)" by simp
    from roundtrip_members [OF each this False len]
    have "parse_members f' ?tail = Some (kvs, rest)" by simp
    with f skip keys show ?thesis by (simp add: dict_distinct)
  qed
qed

text \<open>
  What \<^verbatim>\<open>json.loads\<close> reads from the text \<^verbatim>\<open>json.dumps\<close> wrote for an in-memory document is
  that document.
\<close>

lemma loads_dumps: "in_memory d \<Longrightarrow> loads (dumps d) = Some d"
proof -
  assume d: "in_memory d"
  from skip_ws_dumps(1) [OF d, of "[]"] have "skip_ws (dumps d) = dumps d" by simp
  moreover from roundtrip_value [OF d, of "Suc (length (dumps d))" "[]"]
  have "parse_value (Suc (length (dumps d))) (dumps d) = Some (d, [])" by simp
  ultimately show ?thesis by (simp add: loads_def skip_ws_def)
qed

text \<open>
  The printer and the parser at work: a text with white space, a float and a key written
  twice, a trailing comma, and the text written for a dict of inputs.
\<close>

lemma loads_spaced:
  \<open>loads ''{ "a" : [1, -2.5e3 , "x"], "b": {}, "a": null }'' =
     Some (JObj [(''a'', JNull), (''b'', JObj [])])\<close>
  by code_simp

lemma loads_trailing_comma: \<open>loads ''[1, 2,]'' = None\<close>
  by code_simp

lemma dumps_sampler:
  \<open>dumps (JObj [(''cfg'', JFloat ''8.0''), (''model'', JArr [JStr ''4'', JInt 0]),
                 (''steps'', JInt (- 20)), (''on'', JBool True), (''x'', JNull)]) =
   ''{"cfg": 8.0, "model": ["4", 0], "steps": -20, "on": true, "x": null}''\<close>
  by code_simp

section \<open>Loading and saving\<close>

text \<open>
  Claim C5. \<^verbatim>\<open>Workflow(name)\<close> raises \<^verbatim>\<open>FileNotFoundError\<close> when the file of that name
  (with \<^verbatim>\<open>.json\<close> appended when missing) is absent from the directory, and \<^verbatim>\<open>ValueError\<close>
  when the file is there, parses, and \<^verbatim>\<open>validate_prompt\<close> returns a false value for the
  document. In both cases the constructor returns no object, so no method can be called.
\<close>

theorem construction_fails:
  "(files fs (path_join DEFAULT_WORKFLOW_PATH
       (if endswith name ''.json'' then name else name @ ''.json'')) = None \<longrightarrow>
      Workflow_init m fs name = Inl FileNotFoundError) \<and>
   (\<forall>text d.
      files fs (path_join DEFAULT_WORKFLOW_PATH
        (if endswith name ''.json'' then name else name @ ''.json'')) = Some text \<and>
      json_loads m text = Some d \<and> \<not> validate_prompt m d \<longrightarrow>
      Workflow_init m fs name = Inl ValueError)"
  by (auto simp: Workflow_init_def load_workflow_def is_valid_def Let_def)

theorem construction_fails_witness:
  "Workflow_init (python_json is_document) example_files ''missing'' = Inl FileNotFoundError \<and>
   Workflow_init (python_json is_document) example_files ''bad'' = Inl ValueError"
proof -
  have missing: "files example_files (path_join DEFAULT_WORKFLOW_PATH
       (if endswith ''missing'' ''.json'' then ''missing'' else ''missing'' @ ''.json'')) = None"
    by (simp add: example_files_def path_join_def endswith_def DEFAULT_WORKFLOW_PATH_def)
  have parsed: "loads ''null'' = Some JNull"
    by (simp add: loads_def skip_ws_def is_ws_def)
  have bad: "files example_files (path_join DEFAULT_WORKFLOW_PATH
        (if endswith ''bad'' ''.json'' then ''bad'' else ''bad'' @ ''.json'')) = Some ''null'' \<and>
      json_loads (python_json is_document) ''null'' = Some JNull \<and>
      \<not> validate_prompt (python_json is_document) JNull"
    by (simp add: example_files_def python_json_def parsed path_join_def endswith_def
        DEFAULT_WORKFLOW_PATH_def is_document_def)
  from construction_fails [of example_files "''missing''" "python_json is_document",
      THEN conjunct1, THEN mp, OF missing]
    construction_fails [of example_files "''bad''" "python_json is_document",
      THEN conjunct2, rule_format, OF bad]
  show ?thesis by simp
qed

text \<open>
  Claim C4. After \<^verbatim>\<open>save_workflow\<close> has written an in-memory document under a name (the
  argument, or the object's own name), \<^verbatim>\<open>load_workflow\<close> of that name returns the
  document saved, and leaves the name with \<^verbatim>\<open>.json\<close> appended when it was missing.
\<close>

theorem save_then_load:
  assumes "save_workflow (python_json validate) w arg fs = (fs', None)"
    and "in_memory (workflow_data w)"
  shows "load_workflow (python_json validate) fs'
           (case arg of None \<Rightarrow> workflow_name w | Some n \<Rightarrow> n) =
           ((if endswith (case arg of None \<Rightarrow> workflow_name w | Some n \<Rightarrow> n) ''.json''
             then (case arg of None \<Rightarrow> workflow_name w | Some n \<Rightarrow> n)
             else (case arg of None \<Rightarrow> workflow_name w | Some n \<Rightarrow> n) @ ''.json''),
            Inr (workflow_data w))"
proof -
  from assms(2) have "loads (dumps (workflow_data w)) = Some (workflow_data w)"
    by (rule loads_dumps)
  with assms(1) show ?thesis
    by (auto simp: save_workflow_def load_workflow_def python_json_def Let_def
        split: if_splits option.splits)
qed

theorem save_then_load_witness:
  "in_memory (workflow_data example_workflow) \<and>
   save_workflow (python_json is_document) example_workflow (Some ''copy'') example_files =
     (example_files\<lparr>files := (files example_files)
        (''/Users/simondharcourt/Downloads/copy.json'' \<mapsto>
           dumps (workflow_data example_workflow))\<rparr>, None) \<and>
   load_workflow (python_json is_document)
     (example_files\<lparr>files := (files example_files)
        (''/Users/simondharcourt/Downloads/copy.json'' \<mapsto>
           dumps (workflow_data example_workflow))\<rparr>) ''copy'' =
     (''copy.json'', Inr (workflow_data example_workflow))"
proof -
  have float: "number_token ''8.0'' = Some (JFloat ''8.0'')"
    by (simp add: number_token_def frac_exp_ok_def exp_ok_def is_digit_def)
  have doc: "in_memory (workflow_data example_workflow)"
    by (simp add: example_defs float is_num_char_def)
  have saved: "save_workflow (python_json is_document) example_workflow (Some ''copy'')
      example_files =
     (example_files\<lparr>files := (files example_files)
        (''/Users/simondharcourt/Downloads/copy.json'' \<mapsto>
           dumps (workflow_data example_workflow))\<rparr>, None)"
    by (simp add: save_workflow_def python_json_def example_files_def path_join_def
        endswith_def DEFAULT_WORKFLOW_PATH_def)
  from save_then_load [OF saved doc] saved doc show ?thesis
    by (simp add: endswith_def)
qed

end
